theory Spec2Isabelle
  imports Complex_Main
begin

section \<open>Sinusoidal position encodings of PaSCo (pasco/models/transformer/position_encoding.py)\<close>

text \<open>
  The file holds two classes, \<^verbatim>\<open>PositionEmbeddingSine\<close> (dense, on a voxel grid) and
  \<^verbatim>\<open>PositionEmbeddingSineSparse\<close> (on a list of points). Both are straight-line code over
  PyTorch tensors. A tensor is modelled by its shape and its indexing function; every tensor
  operation the two \<^verbatim>\<open>forward\<close> methods call is a definition below, with the exception it can
  raise made a value of type \<open>error\<close>.

  Numbers are float32 with the rounding of every operation (see the section on floats); a
  float that is not finite (an infinity or NaN) is \<open>None\<close>, and the sign of zero is not
  modelled. Neither method ever divides a finite value by an infinite tensor element, so in them
  a value that is not finite stays so up to the output, where \<open>sin\<close> and \<open>cos\<close> make it
  NaN.
\<close>

subsection \<open>Errors\<close>

datatype error =
    ValueError          \<comment> \<open>raised by \<^verbatim>\<open>__init__\<close>\<close>
  | IndexError          \<comment> \<open>a dimension or an index out of range\<close>
  | BroadcastError      \<comment> \<open>RuntimeError: operand sizes that do not broadcast\<close>
  | StackSizeError      \<comment> \<open>RuntimeError: stack expects each tensor to be equal size\<close>
  | CatSizeError        \<comment> \<open>RuntimeError: sizes of tensors must match except in the cat dimension\<close>
  | PermuteError        \<comment> \<open>RuntimeError: the dims of permute are not a permutation\<close>

definition and_then :: "error + 'a \<Rightarrow> ('a \<Rightarrow> error + 'b) \<Rightarrow> error + 'b" where
  "and_then m f = (case m of Inl e \<Rightarrow> Inl e | Inr v \<Rightarrow> f v)"

subsection \<open>Floats\<close>

text \<open>
  The tensors hold float32 numbers. A float is a real number or \<open>None\<close>, which stands for a
  float that is not finite (an infinity or NaN). \<open>round32\<close> is the rounding of a real number to
  float32: to the nearest number with a significand of 24 bits and an exponent of at least
  \<open>-149\<close> for the last bit, ties to the even significand, and to an infinity from \<open>2^128\<close> on.
  Every arithmetic operation rounds its exact result, and every Python number that meets a tensor
  is rounded first. \<^verbatim>\<open>sin\<close>, \<^verbatim>\<open>cos\<close> and \<^verbatim>\<open>pow\<close> are taken as correctly rounded.
\<close>

type_synonym fl = "real option"

definition round_even :: "real \<Rightarrow> int" where
  "round_even y =
     (let f = \<lfloor>y\<rfloor>
      in if y - of_int f < 1 / 2 then f
         else if 1 / 2 < y - of_int f then f + 1
         else if even f then f else f + 1)"

definition f32_exponent :: "real \<Rightarrow> int" where
  "f32_exponent x = max (\<lfloor>log 2 \<bar>x\<bar>\<rfloor> - 23) (- 149)"

definition round32_val :: "real \<Rightarrow> real" where
  "round32_val x =
     (if x = 0 then 0
      else of_int (round_even (x / 2 powi f32_exponent x)) * 2 powi f32_exponent x)"

definition round32 :: "real \<Rightarrow> fl" where
  "round32 x = (if 2 ^ 128 \<le> \<bar>round32_val x\<bar> then None else Some (round32_val x))"

text \<open>\<^verbatim>\<open>t.float()\<close> on an element.\<close>

definition to_float32 :: "fl \<Rightarrow> fl" where
  "to_float32 a = Option.bind a round32"

definition fadd_scalar :: "fl \<Rightarrow> real \<Rightarrow> fl" where
  "fadd_scalar a c = (case (a, round32 c) of
       (Some x, Some y) \<Rightarrow> round32 (x + y)
     | _ \<Rightarrow> None)"

definition fmul_scalar :: "fl \<Rightarrow> real \<Rightarrow> fl" where
  "fmul_scalar a c = (case (a, round32 c) of
       (Some x, Some y) \<Rightarrow> round32 (x * y)
     | _ \<Rightarrow> None)"

definition fdiv :: "fl \<Rightarrow> fl \<Rightarrow> fl" where
  "fdiv a b = (case (a, b) of
       (Some x, Some y) \<Rightarrow> if y = 0 then None else round32 (x / y)
     | _ \<Rightarrow> None)"

text \<open>Division by a Python number; one that rounds to an infinity gives zero.\<close>

definition fdiv_scalar :: "fl \<Rightarrow> real \<Rightarrow> fl" where
  "fdiv_scalar a c = (case a of
       None \<Rightarrow> None
     | Some x \<Rightarrow> (case round32 c of
           None \<Rightarrow> Some 0
         | Some y \<Rightarrow> if y = 0 then None else round32 (x / y)))"

definition ffloordiv_scalar :: "fl \<Rightarrow> real \<Rightarrow> fl" where
  "ffloordiv_scalar a c = (case a of
       None \<Rightarrow> None
     | Some x \<Rightarrow> (case round32 c of
           None \<Rightarrow> Some (if x \<noteq> 0 \<and> (x < 0) = (0 < c) then - 1 else 0)
         | Some y \<Rightarrow> if y = 0 then None else round32 (of_int \<lfloor>x / y\<rfloor>)))"

definition fsin :: "fl \<Rightarrow> fl" where
  "fsin a = Option.bind a (\<lambda>x. round32 (sin x))"

definition fcos :: "fl \<Rightarrow> fl" where
  "fcos a = Option.bind a (\<lambda>x. round32 (cos x))"

text \<open>\<^verbatim>\<open>b ** e\<close> for a Python number \<open>b\<close> and a float \<open>e\<close>, as C's \<^verbatim>\<open>powf\<close> on the rounded
  base.\<close>

definition fpow_scalar :: "real \<Rightarrow> fl \<Rightarrow> fl" where
  "fpow_scalar b e = (case e of
       None \<Rightarrow> if round32 b = Some 1 then Some 1 else None
     | Some y \<Rightarrow>
         if y = 0 then Some 1
         else (case round32 b of
             None \<Rightarrow> if 0 < y then None else Some 0
           | Some x \<Rightarrow>
               if 0 < x then round32 (x powr y)
               else if x = 0 then (if 0 < y then Some 0 else None)
               else if frac y = 0 then round32 (x powi \<lfloor>y\<rfloor>)
               else None))"

subsection \<open>Tensors\<close>

datatype 'a tensor = Tensor (shape: "nat list") (elem: "nat list \<Rightarrow> 'a")

text \<open>An index is in bounds when it has one component per dimension, each below the size.\<close>

definition in_bounds :: "nat list \<Rightarrow> nat list \<Rightarrow> bool" where
  "in_bounds s idx = list_all2 (\<lambda>i n. i < n) idx s"

definition tensor_eq :: "'a tensor \<Rightarrow> 'a tensor \<Rightarrow> bool" where
  "tensor_eq a b = (shape a = shape b \<and> (\<forall>idx. in_bounds (shape a) idx \<longrightarrow> elem a idx = elem b idx))"

definition tensor_map :: "('a \<Rightarrow> 'b) \<Rightarrow> 'a tensor \<Rightarrow> 'b tensor" where
  "tensor_map f t = Tensor (shape t) (\<lambda>idx. f (elem t idx))"

text \<open>\<^verbatim>\<open>t.size(d)\<close>\<close>

definition tensor_size :: "'a tensor \<Rightarrow> nat \<Rightarrow> error + nat" where
  "tensor_size t d = (if d < length (shape t) then Inr (shape t ! d) else Inl IndexError)"

text \<open>\<^verbatim>\<open>torch.zeros(s, dtype=torch.bool)\<close>\<close>

definition torch_zeros :: "nat list \<Rightarrow> bool tensor" where
  "torch_zeros s = Tensor s (\<lambda>idx. False)"

text \<open>\<^verbatim>\<open>torch.arange(n, dtype=torch.float)\<close>\<close>

definition torch_arange :: "nat \<Rightarrow> fl tensor" where
  "torch_arange n = Tensor [n] (\<lambda>idx. round32 (real (hd idx)))"

text \<open>\<^verbatim>\<open>t.cumsum(d, dtype=torch.float)\<close> of a boolean tensor: the inclusive running count
  of the true entries along dimension \<open>d\<close>, as a float32.\<close>

definition tensor_cumsum :: "bool tensor \<Rightarrow> nat \<Rightarrow> error + fl tensor" where
  "tensor_cumsum t d =
     (if d < length (shape t)
      then Inr (Tensor (shape t)
             (\<lambda>idx. round32 (real (length (filter (\<lambda>k. elem t (idx[d := k])) [0..<Suc (idx ! d)])))))
      else Inl IndexError)"

text \<open>\<^verbatim>\<open>t[:, i]\<close> is \<open>tensor_select t 1 i\<close>: the index \<open>i\<close> is taken at dimension \<open>d\<close>,
  which disappears.\<close>

definition tensor_select :: "'a tensor \<Rightarrow> nat \<Rightarrow> nat \<Rightarrow> error + 'a tensor" where
  "tensor_select t d i =
     (if d < length (shape t) \<and> i < shape t ! d
      then Inr (Tensor (take d (shape t) @ drop (Suc d) (shape t))
             (\<lambda>idx. elem t (take d idx @ [i] @ drop d idx)))
      else Inl IndexError)"

text \<open>\<^verbatim>\<open>t[:, None]\<close> is \<open>tensor_unsqueeze t 1\<close>: a new dimension of size 1 at position \<open>d\<close>.\<close>

definition tensor_unsqueeze :: "'a tensor \<Rightarrow> nat \<Rightarrow> error + 'a tensor" where
  "tensor_unsqueeze t d =
     (if d \<le> length (shape t)
      then Inr (Tensor (take d (shape t) @ [1] @ drop d (shape t))
             (\<lambda>idx. elem t (take d idx @ drop (Suc d) idx)))
      else Inl IndexError)"

text \<open>\<^verbatim>\<open>t[..., start::step]\<close> at dimension \<open>d\<close>. A negative start counts from the end and
  is clipped, as Python's slices are.\<close>

definition slice_start :: "nat \<Rightarrow> int \<Rightarrow> nat" where
  "slice_start n start = (if start < 0 then nat (max 0 (int n + start)) else min (nat start) n)"

definition slice_length :: "nat \<Rightarrow> int \<Rightarrow> nat \<Rightarrow> nat" where
  "slice_length n start step = (n - slice_start n start + step - 1) div step"

definition tensor_slice :: "'a tensor \<Rightarrow> nat \<Rightarrow> int \<Rightarrow> nat \<Rightarrow> error + 'a tensor" where
  "tensor_slice t d start step =
     (if d < length (shape t)
      then Inr (Tensor ((shape t)[d := slice_length (shape t ! d) start step])
             (\<lambda>idx. elem t (idx[d := slice_start (shape t ! d) start + step * (idx ! d)])))
      else Inl IndexError)"

text \<open>Broadcasting: the shapes are aligned at their last dimension, the shorter one is padded
  with ones in front, and two sizes go together when they are equal or one of them is 1.\<close>

definition pad_shape :: "nat \<Rightarrow> nat list \<Rightarrow> nat list" where
  "pad_shape k s = replicate (k - length s) 1 @ s"

definition broadcast_shapes :: "nat list \<Rightarrow> nat list \<Rightarrow> nat list option" where
  "broadcast_shapes a b =
     (let k = max (length a) (length b); a' = pad_shape k a; b' = pad_shape k b
      in if list_all2 (\<lambda>x y. x = y \<or> x = 1 \<or> y = 1) a' b'
         then Some (map2 (\<lambda>x y. if x = 1 then y else x) a' b')
         else None)"

definition bcast_index :: "nat list \<Rightarrow> nat list \<Rightarrow> nat list" where
  "bcast_index s idx = map2 (\<lambda>n i. if n = 1 then 0 else i) s (drop (length idx - length s) idx)"

definition tensor_binop :: "('a \<Rightarrow> 'b \<Rightarrow> 'c) \<Rightarrow> 'a tensor \<Rightarrow> 'b tensor \<Rightarrow> error + 'c tensor" where
  "tensor_binop f a b =
     (case broadcast_shapes (shape a) (shape b) of
        None \<Rightarrow> Inl BroadcastError
      | Some s \<Rightarrow> Inr (Tensor s
          (\<lambda>idx. f (elem a (bcast_index (shape a) idx)) (elem b (bcast_index (shape b) idx)))))"

definition tensor_div :: "fl tensor \<Rightarrow> fl tensor \<Rightarrow> error + fl tensor" where
  "tensor_div a b = tensor_binop fdiv a b"

text \<open>\<^verbatim>\<open>torch.stack((a, b), dim=d)\<close>: a new dimension of size 2 at position \<open>d\<close>.\<close>

definition torch_stack :: "'a tensor \<Rightarrow> 'a tensor \<Rightarrow> nat \<Rightarrow> error + 'a tensor" where
  "torch_stack a b d =
     (if length (shape a) < d then Inl IndexError
      else if shape a \<noteq> shape b then Inl StackSizeError
      else Inr (Tensor (take d (shape a) @ [2] @ drop d (shape a))
             (\<lambda>idx. elem (if idx ! d = 0 then a else b) (take d idx @ drop (Suc d) idx))))"

text \<open>\<^verbatim>\<open>t.flatten(d)\<close>: the dimensions from \<open>d\<close> on become one, in row-major order.\<close>

fun unravel :: "nat list \<Rightarrow> nat \<Rightarrow> nat list" where
  "unravel [] j = []"
| "unravel (n # ns) j = (j div prod_list ns) # unravel ns (j mod prod_list ns)"

definition tensor_flatten :: "'a tensor \<Rightarrow> nat \<Rightarrow> error + 'a tensor" where
  "tensor_flatten t d =
     (if d < length (shape t)
      then Inr (Tensor (take d (shape t) @ [prod_list (drop d (shape t))])
             (\<lambda>idx. elem t (take d idx @ unravel (drop d (shape t)) (idx ! d))))
      else Inl IndexError)"

text \<open>\<^verbatim>\<open>torch.cat(ts, dim=d)\<close>. (torch also skips arguments of shape \<open>[0]\<close>; the arguments
  here come out of \<open>flatten\<close> at a dimension \<open>\<ge> 1\<close> and have at least two dimensions.)\<close>

definition cat2 :: "'a tensor \<Rightarrow> 'a tensor \<Rightarrow> nat \<Rightarrow> error + 'a tensor" where
  "cat2 a b d =
     (if length (shape a) \<le> d then Inl IndexError
      else if (shape a)[d := 0] \<noteq> (shape b)[d := 0] then Inl CatSizeError
      else Inr (Tensor ((shape a)[d := shape a ! d + shape b ! d])
             (\<lambda>idx. if idx ! d < shape a ! d then elem a idx
                    else elem b (idx[d := idx ! d - shape a ! d]))))"

fun torch_cat :: "'a tensor list \<Rightarrow> nat \<Rightarrow> error + 'a tensor" where
  "torch_cat [] d = Inl ValueError"
| "torch_cat [t] d = (if d < length (shape t) then Inr t else Inl IndexError)"
| "torch_cat (t # ts) d = and_then (torch_cat ts d) (\<lambda>r. cat2 t r d)"

text \<open>\<^verbatim>\<open>t.permute(*perm)\<close>: dimension \<open>k\<close> of the result is dimension \<open>perm ! k\<close> of \<open>t\<close>.\<close>

definition index_of :: "nat list \<Rightarrow> nat \<Rightarrow> nat" where
  "index_of xs q = length (takeWhile (\<lambda>x. x \<noteq> q) xs)"

definition tensor_permute :: "'a tensor \<Rightarrow> nat list \<Rightarrow> error + 'a tensor" where
  "tensor_permute t perm =
     (if sort perm = [0..<length (shape t)]
      then Inr (Tensor (map (\<lambda>p. shape t ! p) perm)
             (\<lambda>idx. elem t (map (\<lambda>q. idx ! index_of perm q) [0..<length (shape t)])))
      else Inl PermuteError)"

subsection \<open>Configuration and constructors\<close>

text \<open>The attributes the two \<^verbatim>\<open>__init__\<close> methods store. \<^verbatim>\<open>num_pos_feats\<close> is a natural
  number (\<^verbatim>\<open>torch.arange\<close> takes it as a length), \<^verbatim>\<open>temperature\<close> and \<^verbatim>\<open>scale\<close> are
  Python numbers, and an omitted \<^verbatim>\<open>scale\<close> is \<open>None\<close>.\<close>

record config =
  num_pos_feats :: nat
  temperature :: real
  normalize :: bool
  scale :: real

definition PositionEmbeddingSine_init :: "nat \<Rightarrow> real \<Rightarrow> bool \<Rightarrow> real option \<Rightarrow> error + config" where
  "PositionEmbeddingSine_init npf temp nrm sc =
     (if sc \<noteq> None \<and> nrm = False then Inl ValueError
      else Inr \<lparr>num_pos_feats = npf, temperature = temp, normalize = nrm,
                scale = (case sc of None \<Rightarrow> 2 * pi | Some s \<Rightarrow> s)\<rparr>)"

definition PositionEmbeddingSineSparse_init :: "nat \<Rightarrow> real \<Rightarrow> bool \<Rightarrow> real option \<Rightarrow> error + config" where
  "PositionEmbeddingSineSparse_init npf temp nrm sc =
     (if sc \<noteq> None \<and> nrm = False then Inl ValueError
      else Inr \<lparr>num_pos_feats = npf, temperature = temp, normalize = nrm,
                scale = (case sc of None \<Rightarrow> 2 * pi | Some s \<Rightarrow> s)\<rparr>)"

subsection \<open>The parts the two forward methods share\<close>

definition eps :: real where
  "eps = 1 / 1000000"

text \<open>Lines 50-51 and 106-111:
  \<^verbatim>\<open>dim_t = temperature ** (2 * (arange(num_pos_feats) // 2) / num_pos_feats)\<close>\<close>

definition dim_t :: "config \<Rightarrow> fl tensor" where
  "dim_t cfg =
     tensor_map
       (\<lambda>d. fpow_scalar (temperature cfg)
              (fdiv_scalar (fmul_scalar (ffloordiv_scalar d 2) 2) (real (num_pos_feats cfg))))
       (torch_arange (num_pos_feats cfg))"

text \<open>\<^verbatim>\<open>torch.stack((pos[..., 0::2].sin(), pos[..., 1::2].cos()), dim=sd).flatten(sd)\<close>, the
  slices taken at dimension \<open>d\<close> (lines 57-65 with \<open>d = 4\<close>, \<open>sd = 4\<close>; lines 117-131 with
  \<open>d = 1\<close>, \<open>sd = 1\<close>).\<close>

definition stack_sin_cos :: "fl tensor \<Rightarrow> nat \<Rightarrow> nat \<Rightarrow> error + fl tensor" where
  "stack_sin_cos pos d sd =
     and_then (tensor_slice pos d 0 2) (\<lambda>ev.
     and_then (tensor_slice pos d 1 2) (\<lambda>od.
     and_then (torch_stack (tensor_map fsin ev) (tensor_map fcos od) sd) (\<lambda>st.
     tensor_flatten st sd)))"

text \<open>\<^verbatim>\<open>e[..., None] / dim_t\<close> with the new dimension at position \<open>d\<close>
  (lines 53-55 with \<open>d = 4\<close>, lines 113-115 with \<open>d = 1\<close>).\<close>

definition div_dim_t :: "config \<Rightarrow> fl tensor \<Rightarrow> nat \<Rightarrow> error + fl tensor" where
  "div_dim_t cfg e d = and_then (tensor_unsqueeze e d) (\<lambda>u. tensor_div u (dim_t cfg))"

subsection \<open>PositionEmbeddingSineSparse.forward\<close>

text \<open>Lines 102-104: \<^verbatim>\<open>e / (e + eps) * self.scale\<close>\<close>

definition sparse_normalize :: "config \<Rightarrow> fl tensor \<Rightarrow> error + fl tensor" where
  "sparse_normalize cfg e =
     and_then (tensor_div e (tensor_map (\<lambda>v. fadd_scalar v eps) e)) (\<lambda>q.
     Inr (tensor_map (\<lambda>v. fmul_scalar v (scale cfg)) q))"

text \<open>Lines 94-104: the coordinates as float32 and their three columns, normalised when
  \<^verbatim>\<open>self.normalize\<close>.\<close>

definition sparse_embed :: "config \<Rightarrow> fl tensor \<Rightarrow> error + (fl tensor \<times> fl tensor \<times> fl tensor)" where
  "sparse_embed cfg coords_arg =
     (let coords = tensor_map to_float32 coords_arg in
     and_then (tensor_select coords 1 0) (\<lambda>x_embed.
     and_then (tensor_select coords 1 1) (\<lambda>y_embed.
     and_then (tensor_select coords 1 2) (\<lambda>z_embed.
     if normalize cfg then
       and_then (sparse_normalize cfg x_embed) (\<lambda>x_embed.
       and_then (sparse_normalize cfg y_embed) (\<lambda>y_embed.
       and_then (sparse_normalize cfg z_embed) (\<lambda>z_embed.
       Inr (x_embed, y_embed, z_embed))))
     else Inr (x_embed, y_embed, z_embed)))))"

text \<open>Lines 106-131: the three per-axis encodings.\<close>

definition sparse_pos :: "config \<Rightarrow> fl tensor \<Rightarrow> error + (fl tensor \<times> fl tensor \<times> fl tensor)" where
  "sparse_pos cfg coords =
     and_then (sparse_embed cfg coords) (\<lambda>(x_embed, y_embed, z_embed).
     and_then (div_dim_t cfg x_embed 1) (\<lambda>pos_x.
     and_then (div_dim_t cfg y_embed 1) (\<lambda>pos_y.
     and_then (div_dim_t cfg z_embed 1) (\<lambda>pos_z.
     and_then (stack_sin_cos pos_x 1 1) (\<lambda>pos_x.
     and_then (stack_sin_cos pos_y 1 1) (\<lambda>pos_y.
     and_then (stack_sin_cos pos_z 1 1) (\<lambda>pos_z.
     Inr (pos_x, pos_y, pos_z))))))))"

text \<open>Lines 133-135.\<close>

definition PositionEmbeddingSineSparse_forward :: "config \<Rightarrow> fl tensor \<Rightarrow> error + fl tensor" where
  "PositionEmbeddingSineSparse_forward cfg coords =
     and_then (sparse_pos cfg coords) (\<lambda>(pos_x, pos_y, pos_z).
     torch_cat [pos_x, pos_y, pos_z] 1)"

subsection \<open>PositionEmbeddingSine.forward\<close>

text \<open>Lines 46-48: \<^verbatim>\<open>e / (e[..., -1:, ...] + eps) * self.scale\<close>, the slice at dimension \<open>d\<close>.\<close>

definition dense_normalize :: "config \<Rightarrow> fl tensor \<Rightarrow> nat \<Rightarrow> error + fl tensor" where
  "dense_normalize cfg e d =
     and_then (tensor_slice e d (- 1) 1) (\<lambda>last_slice.
     and_then (tensor_div e (tensor_map (\<lambda>v. fadd_scalar v eps) last_slice)) (\<lambda>q.
     Inr (tensor_map (\<lambda>v. fmul_scalar v (scale cfg)) q)))"

text \<open>Lines 32-37: the mask, all false when none is given.\<close>

definition default_mask :: "'a tensor \<Rightarrow> bool tensor option \<Rightarrow> error + bool tensor" where
  "default_mask x mask_arg =
     (case mask_arg of
        None \<Rightarrow>
          and_then (tensor_size x 0) (\<lambda>b.
          and_then (tensor_size x 2) (\<lambda>sx.
          and_then (tensor_size x 3) (\<lambda>sy.
          and_then (tensor_size x 4) (\<lambda>sz.
          Inr (torch_zeros [b, sx, sy, sz])))))
      | Some m \<Rightarrow> Inr m)"

text \<open>Lines 32-48: the three cumulative-occupancy volumes, normalised when
  \<^verbatim>\<open>self.normalize\<close>.\<close>

definition dense_embed ::
  "config \<Rightarrow> 'a tensor \<Rightarrow> bool tensor option \<Rightarrow> error + (fl tensor \<times> fl tensor \<times> fl tensor)" where
  "dense_embed cfg x mask_arg =
     and_then (default_mask x mask_arg) (\<lambda>the_mask.
     let not_mask = tensor_map Not the_mask in
     and_then (tensor_cumsum not_mask 1) (\<lambda>x_embed.
     and_then (tensor_cumsum not_mask 2) (\<lambda>y_embed.
     and_then (tensor_cumsum not_mask 3) (\<lambda>z_embed.
     if normalize cfg then
       and_then (dense_normalize cfg x_embed 1) (\<lambda>x_embed.
       and_then (dense_normalize cfg y_embed 2) (\<lambda>y_embed.
       and_then (dense_normalize cfg z_embed 3) (\<lambda>z_embed.
       Inr (x_embed, y_embed, z_embed))))
     else Inr (x_embed, y_embed, z_embed)))))"

text \<open>Lines 50-65: the three per-axis encodings.\<close>

definition dense_pos ::
  "config \<Rightarrow> 'a tensor \<Rightarrow> bool tensor option \<Rightarrow> error + (fl tensor \<times> fl tensor \<times> fl tensor)" where
  "dense_pos cfg x mask_arg =
     and_then (dense_embed cfg x mask_arg) (\<lambda>(x_embed, y_embed, z_embed).
     and_then (div_dim_t cfg x_embed 4) (\<lambda>pos_x.
     and_then (div_dim_t cfg y_embed 4) (\<lambda>pos_y.
     and_then (div_dim_t cfg z_embed 4) (\<lambda>pos_z.
     and_then (stack_sin_cos pos_x 4 4) (\<lambda>pos_x.
     and_then (stack_sin_cos pos_y 4 4) (\<lambda>pos_y.
     and_then (stack_sin_cos pos_z 4 4) (\<lambda>pos_z.
     Inr (pos_x, pos_y, pos_z))))))))"

text \<open>Lines 67-68.\<close>

definition PositionEmbeddingSine_forward ::
  "config \<Rightarrow> 'a tensor \<Rightarrow> bool tensor option \<Rightarrow> error + fl tensor" where
  "PositionEmbeddingSine_forward cfg x mask_arg =
     and_then (dense_pos cfg x mask_arg) (\<lambda>(pos_x, pos_y, pos_z).
     and_then (torch_cat [pos_x, pos_y, pos_z] 4) (\<lambda>pos.
     tensor_permute pos [0, 4, 1, 2, 3]))"

subsection \<open>Notions used in the statements\<close>

text \<open>The coordinate the sparse encoder divides by the frequency table, for a float32
  coordinate \<open>c\<close>.\<close>

definition sparse_coord :: "config \<Rightarrow> fl \<Rightarrow> fl" where
  "sparse_coord cfg c =
     (if normalize cfg then fmul_scalar (fdiv c (fadd_scalar c eps)) (scale cfg) else c)"

text \<open>What both encoders put at position \<open>j\<close> of a per-axis encoding, for a coordinate
  \<open>c\<close> (proved below, for an even \<^verbatim>\<open>num_pos_feats\<close>).\<close>

definition band :: "config \<Rightarrow> fl \<Rightarrow> nat \<Rightarrow> fl" where
  "band cfg c j =
     (if j < num_pos_feats cfg div 2 then fsin (fdiv c (elem (dim_t cfg) [2 * j]))
      else fcos (fdiv c (elem (dim_t cfg) [2 * (j - num_pos_feats cfg div 2) + 1])))"

text \<open>The number of unmasked voxels up to and including \<open>idx\<close> along dimension \<open>d\<close>, and
  the coordinate the dense encoder divides by the frequency table.\<close>

definition rank :: "bool tensor \<Rightarrow> nat \<Rightarrow> nat list \<Rightarrow> nat" where
  "rank m d idx = length (filter (\<lambda>k. \<not> elem m (idx[d := k])) [0..<Suc (idx ! d)])"

definition count32 :: "bool tensor \<Rightarrow> nat \<Rightarrow> nat list \<Rightarrow> fl" where
  "count32 m d idx = round32 (real (rank m d idx))"

definition dense_coord :: "config \<Rightarrow> bool tensor \<Rightarrow> nat \<Rightarrow> nat list \<Rightarrow> fl" where
  "dense_coord cfg m d idx =
     (if normalize cfg
      then fmul_scalar
             (fdiv (count32 m d idx) (fadd_scalar (count32 m d (idx[d := shape m ! d - 1])) eps))
             (scale cfg)
      else count32 m d idx)"

text \<open>The size of a dimension after the slice \<^verbatim>\<open>-1:\<close>.\<close>

definition keep1 :: "nat \<Rightarrow> nat" where
  "keep1 n = (if n = 0 then 0 else Suc 0)"

text \<open>\<^verbatim>\<open>t[[g(0), ..., g(M-1)]]\<close>: the rows of \<open>t\<close> picked by \<open>g\<close>; a tensor of two
  dimensions given by its rows; configurations to evaluate the encoders at.\<close>

definition index_rows :: "(nat \<Rightarrow> nat) \<Rightarrow> nat \<Rightarrow> 'a tensor \<Rightarrow> 'a tensor" where
  "index_rows g M t = Tensor (M # tl (shape t)) (\<lambda>idx. elem t (g (hd idx) # tl idx))"

definition tensor2 :: "'a list list \<Rightarrow> nat \<Rightarrow> 'a tensor" where
  "tensor2 rows C = Tensor [length rows, C] (\<lambda>idx. rows ! (idx ! 0) ! (idx ! 1))"

definition cfg_default :: "nat \<Rightarrow> config" where
  "cfg_default n = \<lparr>num_pos_feats = n, temperature = 10000, normalize = False, scale = 2 * pi\<rparr>"


text \<open>The inputs \<^verbatim>\<open>[[1,2,3],[4,5,6]]\<close> and \<^verbatim>\<open>[[1,2,3]]\<close>.\<close>

definition two_points :: "fl tensor" where
  "two_points = tensor2 [[Some 1, Some 2, Some 3], [Some 4, Some 5, Some 6]] 3"

definition one_point :: "fl tensor" where
  "one_point = tensor2 [[Some 1, Some 2, Some 3]] 3"

text \<open>Further inputs: a grid of one voxel and one of two voxels along the first spatial
  axis (their values are never read), the point \<^verbatim>\<open>[[0,0,0]]\<close>, the empty list of points, and
  the mask of a grid of one voxel that is padding.\<close>

definition one_voxel :: "real tensor" where
  "one_voxel = Tensor [1, 1, 1, 1, 1] (\<lambda>idx. 0)"

definition two_voxels :: "real tensor" where
  "two_voxels = Tensor [1, 1, 2, 1, 1] (\<lambda>idx. 0)"

definition origin :: "fl tensor" where
  "origin = tensor2 [[Some 0, Some 0, Some 0]] 3"

definition no_points :: "fl tensor" where
  "no_points = tensor2 [] 3"

definition all_masked :: "bool tensor" where
  "all_masked = Tensor [1, 1, 1, 1] (\<lambda>idx. True)"

text \<open>The normalising configuration with scale \<open>s\<close>, and the configuration of four
  bands with temperature \<open>t\<close>.\<close>

definition cfg_scale :: "real \<Rightarrow> config" where
  "cfg_scale s = \<lparr>num_pos_feats = 64, temperature = 10000, normalize = True, scale = s\<rparr>"

definition cfg_temperature :: "real \<Rightarrow> config" where
  "cfg_temperature t = \<lparr>num_pos_feats = 4, temperature = t, normalize = False, scale = 2 * pi\<rparr>"

text \<open>A mask of two voxels along the first spatial axis, both padding, and a grid of
  \<open>2^24 + 1\<close> voxels along that axis.\<close>

definition padded_line :: "bool tensor" where
  "padded_line = Tensor [1, 2, 1, 1] (\<lambda>idx. True)"

definition long_line :: "real tensor" where
  "long_line = Tensor [1, 1, 16777217, 1, 1] (\<lambda>idx. 0)"

section \<open>Rounding to float32\<close>

lemma round_even_of_int [simp]: "round_even (of_int k) = k"
  by (simp add: round_even_def)

lemma round_even_0 [simp]: "round_even 0 = 0"
  using round_even_of_int [of 0] by simp

lemma round_even_floor: "\<lfloor>y\<rfloor> \<le> round_even y" "round_even y \<le> \<lfloor>y\<rfloor> + 1"
  unfolding round_even_def Let_def by simp_all

lemma round_even_mono:
  assumes "x \<le> y"
  shows "round_even x \<le> round_even y"
proof (cases "\<lfloor>x\<rfloor> = \<lfloor>y\<rfloor>")
  case True
  from assms have "x - of_int \<lfloor>y\<rfloor> \<le> y - of_int \<lfloor>y\<rfloor>" by simp
  then show ?thesis
    unfolding round_even_def Let_def True by (simp; linarith)
next
  case False
  with floor_mono [OF assms] have "\<lfloor>x\<rfloor> + 1 \<le> \<lfloor>y\<rfloor>" by linarith
  with round_even_floor(2) [of x] round_even_floor(1) [of y] show ?thesis by linarith
qed

lemma round_even_nonneg: "0 \<le> y \<Longrightarrow> 0 \<le> round_even y"
  using round_even_mono [of 0 y] by simp

lemma round_even_neg: "round_even (- y) = - round_even y"
proof (cases "y = of_int \<lfloor>y\<rfloor>")
  case True
  then have "- y = of_int (- \<lfloor>y\<rfloor>)" by simp
  then have "round_even (- y) = - \<lfloor>y\<rfloor>" by (metis round_even_of_int)
  moreover from True have "round_even y = \<lfloor>y\<rfloor>" by (metis round_even_of_int)
  ultimately show ?thesis by simp
next
  case False
  have lt: "of_int \<lfloor>y\<rfloor> < y"
    using False of_int_floor_le [of y] by linarith
  have ub: "y < of_int \<lfloor>y\<rfloor> + 1" by linarith
  have f: "\<lfloor>- y\<rfloor> = - \<lfloor>y\<rfloor> - 1"
  proof (rule floor_unique)
    show "of_int (- \<lfloor>y\<rfloor> - 1) \<le> - y" by (simp; linarith)
    show "- y < of_int (- \<lfloor>y\<rfloor> - 1) + 1" using lt by (simp; linarith?)
  qed
  define g where "g = \<lfloor>y\<rfloor>"
  define d where "d = y - of_int g"
  have y: "y = of_int g + d" by (simp add: d_def)
  have e: "even (- g - 1) \<longleftrightarrow> odd g" by simp
  show ?thesis
    unfolding round_even_def Let_def f g_def [symmetric] e
    unfolding y by (simp; linarith)
qed

lemma powr_powi: "0 < x \<Longrightarrow> x powr of_int n = x powi n" for x :: real
  by (simp add: powr_real_of_int power_int_def power_inverse)

lemma powr_powi_add1: "0 < x \<Longrightarrow> x powr (of_int n + 1) = x powi (n + 1)" for x :: real
  using powr_powi [of x "n + 1"] by simp

lemma two_powi_pos [simp]: "0 < (2::real) powi n"
  by simp

lemma floor_log2_bounds:
  assumes "x \<noteq> 0"
  shows "2 powi \<lfloor>log 2 \<bar>x\<bar>\<rfloor> \<le> \<bar>x\<bar>" "\<bar>x\<bar> < 2 powi (\<lfloor>log 2 \<bar>x\<bar>\<rfloor> + 1)"
proof -
  from assms have p: "0 < \<bar>x\<bar>" by simp
  from floor_log_eq_powr_iff [OF p, of 2 "\<lfloor>log 2 \<bar>x\<bar>\<rfloor>"]
  have "2 powr of_int \<lfloor>log 2 \<bar>x\<bar>\<rfloor> \<le> \<bar>x\<bar> \<and> \<bar>x\<bar> < 2 powr of_int (\<lfloor>log 2 \<bar>x\<bar>\<rfloor> + 1)"
    by simp
  then show "2 powi \<lfloor>log 2 \<bar>x\<bar>\<rfloor> \<le> \<bar>x\<bar>" "\<bar>x\<bar> < 2 powi (\<lfloor>log 2 \<bar>x\<bar>\<rfloor> + 1)"
    by (simp_all add: powr_powi powr_powi_add1)
qed

lemma floor_log2_eq:
  assumes "2 powi k \<le> \<bar>x\<bar>" "\<bar>x\<bar> < 2 powi (k + 1)"
  shows "\<lfloor>log 2 \<bar>x\<bar>\<rfloor> = k"
proof -
  from assms(1) have p: "0 < \<bar>x\<bar>" by (rule less_le_trans [OF two_powi_pos])
  from assms show ?thesis
    unfolding floor_log_eq_powr_iff [OF p, of 2 k, simplified] by (simp add: powr_powi powr_powi_add1)
qed

lemma f32_exponent_ge [simp]: "- 149 \<le> f32_exponent x"
  by (simp add: f32_exponent_def)

lemma f32_exponent_neg [simp]: "f32_exponent (- x) = f32_exponent x"
  by (simp add: f32_exponent_def)

lemma scaled_lt:
  assumes "x \<noteq> 0"
  shows "\<bar>x\<bar> / 2 powi f32_exponent x < 2 ^ 24"
proof -
  let ?L = "\<lfloor>log 2 \<bar>x\<bar>\<rfloor>" and ?e = "f32_exponent x"
  have "?L + 1 \<le> ?e + 24" by (simp add: f32_exponent_def)
  then have "(2::real) powi (?L + 1) \<le> 2 powi (?e + 24)"
    by (intro power_int_increasing) simp_all
  with floor_log2_bounds(2) [OF assms] have "\<bar>x\<bar> < 2 powi (?e + 24)" by linarith
  also have "\<dots> = 2 ^ 24 * 2 powi ?e" by (simp add: power_int_add)
  finally show ?thesis by (simp add: pos_divide_less_eq)
qed

lemma scaled_ge:
  assumes "x \<noteq> 0" "- 149 < f32_exponent x"
  shows "2 ^ 23 \<le> \<bar>x\<bar> / 2 powi f32_exponent x"
proof -
  let ?L = "\<lfloor>log 2 \<bar>x\<bar>\<rfloor>" and ?e = "f32_exponent x"
  from assms(2) have "?L = ?e + 23" by (simp add: f32_exponent_def max_def split: if_splits)
  with floor_log2_bounds(1) [OF assms(1)] have "2 powi (?e + 23) \<le> \<bar>x\<bar>" by simp
  moreover have "(2::real) powi (?e + 23) = 2 ^ 23 * 2 powi ?e" by (simp add: power_int_add)
  ultimately show ?thesis by (simp add: pos_le_divide_eq)
qed

lemma round32_val_neg: "round32_val (- x) = - round32_val x"
  by (simp add: round32_val_def round_even_neg)

lemma round32_val_0 [simp]: "round32_val 0 = 0"
  by (simp add: round32_val_def)

lemma round32_val_nonneg:
  assumes "0 \<le> x"
  shows "0 \<le> round32_val x"
proof (cases "x = 0")
  case False
  with assms have "0 \<le> x / 2 powi f32_exponent x" by simp
  from round_even_nonneg [OF this] False show ?thesis
    by (simp add: round32_val_def)
qed simp

lemma f32_exponent_mono:
  assumes "0 < x" "x \<le> y"
  shows "f32_exponent x \<le> f32_exponent y"
proof -
  from assms have "log 2 \<bar>x\<bar> \<le> log 2 \<bar>y\<bar>" by simp
  then have "\<lfloor>log 2 \<bar>x\<bar>\<rfloor> \<le> \<lfloor>log 2 \<bar>y\<bar>\<rfloor>" by (rule floor_mono)
  then show ?thesis by (simp add: f32_exponent_def)
qed

lemma round32_val_le_binade:
  assumes "0 < x"
  shows "round32_val x \<le> 2 powi (f32_exponent x + 24)"
proof -
  let ?e = "f32_exponent x"
  from assms scaled_lt [of x] have "x / 2 powi ?e \<le> of_int (2 ^ 24)" by simp
  from round_even_mono [OF this] have "round_even (x / 2 powi ?e) \<le> 2 ^ 24"
    by (simp only: round_even_of_int)
  then have "real_of_int (round_even (x / 2 powi ?e)) \<le> 2 ^ 24"
    by (metis of_int_le_iff of_int_numeral of_int_power)
  then have "real_of_int (round_even (x / 2 powi ?e)) * 2 powi ?e \<le> 2 ^ 24 * 2 powi ?e"
    by (intro mult_right_mono) simp_all
  with assms show ?thesis by (simp add: round32_val_def power_int_add mult.commute)
qed

lemma round32_val_ge_binade:
  assumes "0 < x" "- 149 < f32_exponent x"
  shows "2 powi (f32_exponent x + 23) \<le> round32_val x"
proof -
  let ?e = "f32_exponent x"
  from assms scaled_ge [of x] have "of_int (2 ^ 23) \<le> x / 2 powi ?e" by simp
  from round_even_mono [OF this] have "2 ^ 23 \<le> round_even (x / 2 powi ?e)"
    by (simp only: round_even_of_int)
  then have "2 ^ 23 \<le> real_of_int (round_even (x / 2 powi ?e))"
    by (metis of_int_le_iff of_int_numeral of_int_power)
  then have "2 ^ 23 * 2 powi ?e \<le> real_of_int (round_even (x / 2 powi ?e)) * 2 powi ?e"
    by (intro mult_right_mono) simp_all
  with assms show ?thesis by (simp add: round32_val_def power_int_add mult.commute)
qed

lemma round32_val_mono_pos:
  assumes "0 < x" "x \<le> y"
  shows "round32_val x \<le> round32_val y"
proof (cases "f32_exponent x = f32_exponent y")
  case True
  let ?q = "2 powi f32_exponent y"
  from assms have "x / ?q \<le> y / ?q" by (simp add: divide_right_mono)
  from round_even_mono [OF this]
  have "real_of_int (round_even (x / ?q)) * ?q \<le> real_of_int (round_even (y / ?q)) * ?q"
    by (intro mult_right_mono) simp_all
  with assms True show ?thesis by (simp add: round32_val_def)
next
  case False
  from assms have y: "0 < y" by simp
  from False f32_exponent_mono [OF assms] have lt: "f32_exponent x < f32_exponent y" by simp
  with f32_exponent_ge [of x] have "- 149 < f32_exponent y" by linarith
  from round32_val_ge_binade [OF y this] have "2 powi (f32_exponent y + 23) \<le> round32_val y" .
  moreover from lt have "(2::real) powi (f32_exponent x + 24) \<le> 2 powi (f32_exponent y + 23)"
    by (intro power_int_increasing) simp_all
  moreover note round32_val_le_binade [OF assms(1)]
  ultimately show ?thesis by linarith
qed

lemma round32_val_mono:
  assumes "x \<le> y"
  shows "round32_val x \<le> round32_val y"
proof -
  consider "0 < x" | "x \<le> 0" "0 \<le> y" | "y < 0" by linarith
  then show ?thesis
  proof cases
    case 1
    then show ?thesis using assms by (rule round32_val_mono_pos)
  next
    case 2
    from 2(1) have "0 \<le> round32_val (- x)" by (intro round32_val_nonneg) simp
    then have "round32_val x \<le> 0" by (simp add: round32_val_neg)
    with round32_val_nonneg [OF 2(2)] show ?thesis by linarith
  next
    case 3
    with assms have "0 < - y" "- y \<le> - x" by simp_all
    from round32_val_mono_pos [OF this] show ?thesis by (simp add: round32_val_neg)
  qed
qed

lemma round32_val_repr_pos:
  assumes "- 149 \<le> e" "0 < k" "k \<le> 2 ^ 24"
  shows "round32_val (of_int k * 2 powi e) = of_int k * 2 powi e"
proof -
  let ?r = "real_of_int k * 2 powi e"
  from assms(2) have r: "0 < ?r" by simp
  have ex: "\<exists>j. ?r / 2 powi f32_exponent ?r = of_int j"
  proof (cases "k = 2 ^ 24")
    case True
    then have rp: "?r = 2 powi (e + 24)" by (simp add: power_int_add mult.commute)
    have "\<lfloor>log 2 \<bar>?r\<bar>\<rfloor> = e + 24"
      unfolding rp by (rule floor_log2_eq) (simp_all add: power_int_add)
    with assms(1) have "f32_exponent ?r = e + 1"
      by (simp add: f32_exponent_def)
    then have "?r / 2 powi f32_exponent ?r = of_int (2 ^ 23)"
      by (simp add: rp power_int_add)
    then show ?thesis by blast
  next
    case False
    with assms(3) have "k < 2 ^ 24" by simp
    then have "real_of_int k < 2 ^ 24"
      by (metis of_int_less_iff of_int_numeral of_int_power)
    then have "?r < 2 ^ 24 * 2 powi e" by (intro mult_strict_right_mono) simp_all
    also have "\<dots> = 2 powi (e + 24)" by (simp add: power_int_add mult.commute)
    finally have lt: "?r < 2 powi (e + 24)" .
    have "\<lfloor>log 2 \<bar>?r\<bar>\<rfloor> \<le> e + 23"
    proof (rule ccontr)
      assume "\<not> \<lfloor>log 2 \<bar>?r\<bar>\<rfloor> \<le> e + 23"
      then have "e + 24 \<le> \<lfloor>log 2 \<bar>?r\<bar>\<rfloor>" by simp
      then have "(2::real) powi (e + 24) \<le> 2 powi \<lfloor>log 2 \<bar>?r\<bar>\<rfloor>"
        by (intro power_int_increasing) simp_all
      moreover from r have "?r \<noteq> 0" "\<bar>?r\<bar> = ?r" by linarith+
      with floor_log2_bounds(1) [of ?r] have "2 powi \<lfloor>log 2 \<bar>?r\<bar>\<rfloor> \<le> ?r" by simp
      ultimately show False using lt by linarith
    qed
    with assms(1) have le: "f32_exponent ?r \<le> e" by (simp add: f32_exponent_def)
    define d where "d = nat (e - f32_exponent ?r)"
    define q :: real where "q = 2 powi f32_exponent ?r"
    have qp: "0 < q" by (simp add: q_def)
    from le have e: "e = f32_exponent ?r + int d" by (simp add: d_def)
    have "(2::real) powi e = 2 powi (f32_exponent ?r + int d)"
      using e by simp
    also have "\<dots> = q * 2 ^ d" by (simp add: power_int_add q_def)
    finally have "(2::real) powi e / q = 2 ^ d" using qp by simp
    then have "?r / q = of_int k * 2 ^ d"
      by (metis times_divide_eq_right)
    then have "?r / 2 powi f32_exponent ?r = of_int (k * 2 ^ d)" by (simp add: q_def)
    then show ?thesis by blast
  qed
  then obtain j where j: "?r / 2 powi f32_exponent ?r = of_int j" ..
  then have "?r = of_int j * 2 powi f32_exponent ?r" by (simp add: field_simps)
  with r j show ?thesis
    unfolding round32_val_def by (simp only: round_even_of_int) simp
qed

lemma round32_val_repr:
  assumes "- 149 \<le> e" "\<bar>k\<bar> \<le> 2 ^ 24"
  shows "round32_val (of_int k * 2 powi e) = of_int k * 2 powi e"
proof -
  consider "0 < k" | "k = 0" | "k < 0" by linarith
  then show ?thesis
  proof cases
    case 1
    with assms show ?thesis by (intro round32_val_repr_pos) simp_all
  next
    case 2
    then show ?thesis by simp
  next
    case 3
    with assms have "round32_val (of_int (- k) * 2 powi e) = of_int (- k) * 2 powi e"
      by (intro round32_val_repr_pos) simp_all
    then show ?thesis
      using round32_val_neg [of "of_int k * 2 powi e"] by simp
  qed
qed

lemma f32_exponent_eq:
  assumes "2 powi L \<le> \<bar>x\<bar>" "\<bar>x\<bar> < 2 powi (L + 1)"
  shows "f32_exponent x = max (L - 23) (- 149)"
  using floor_log2_eq [OF assms] by (simp add: f32_exponent_def)

lemma round_even_abs_le:
  assumes "\<bar>y\<bar> \<le> of_int n"
  shows "\<bar>round_even y\<bar> \<le> n"
proof -
  from assms have "y \<le> of_int n" "of_int (- n) \<le> y" by simp_all
  from round_even_mono [OF this(1)] round_even_mono [OF this(2)] show ?thesis
    by (simp only: round_even_of_int) simp?
qed

lemma round32_val_idem: "round32_val (round32_val x) = round32_val x"
proof (cases "x = 0")
  case False
  let ?q = "2 powi f32_exponent x"
  from scaled_lt [OF False] have "\<bar>x / ?q\<bar> \<le> of_int (2 ^ 24)" by simp
  from round_even_abs_le [OF this] have "\<bar>round_even (x / ?q)\<bar> \<le> 2 ^ 24" .
  from round32_val_repr [OF f32_exponent_ge this] False show ?thesis
    by (simp add: round32_val_def)
qed simp

lemma round32_Some_val: "round32 x = Some a \<Longrightarrow> a = round32_val x \<and> \<bar>a\<bar> < 2 ^ 128"
  by (auto simp: round32_def split: if_splits)

lemma round32_idem: "round32 x = Some a \<Longrightarrow> round32 a = Some a"
  using round32_val_idem [of x] by (auto simp: round32_def split: if_splits)

lemma round32_mono:
  assumes "x \<le> y" "round32 x = Some a" "round32 y = Some b"
  shows "a \<le> b"
  using round32_val_mono [OF assms(1)] round32_Some_val [OF assms(2)] round32_Some_val [OF assms(3)]
  by simp

lemma round32_between:
  assumes "lo \<le> x" "x \<le> hi" "round32 lo = Some lo" "round32 hi = Some hi"
  shows "\<exists>a. round32 x = Some a \<and> lo \<le> a \<and> a \<le> hi"
proof -
  from round32_Some_val [OF assms(3)] round32_Some_val [OF assms(4)]
  have l: "round32_val lo = lo" "\<bar>lo\<bar> < 2 ^ 128" and h: "round32_val hi = hi" "\<bar>hi\<bar> < 2 ^ 128"
    by simp_all
  from round32_val_mono [OF assms(1)] round32_val_mono [OF assms(2)] l(1) h(1)
  have b: "lo \<le> round32_val x" "round32_val x \<le> hi" by simp_all
  with l(2) h(2) have "\<bar>round32_val x\<bar> < 2 ^ 128" by linarith
  with b show ?thesis by (simp add: round32_def)
qed

lemma round32_repr:
  assumes "- 149 \<le> e" "\<bar>k\<bar> \<le> 2 ^ 24" "\<bar>real_of_int k * 2 powi e\<bar> < 2 ^ 128"
  shows "round32 (of_int k * 2 powi e) = Some (of_int k * 2 powi e)"
  using round32_val_repr [OF assms(1,2)] assms(3) by (simp add: round32_def)

lemma round32_nat:
  assumes "n \<le> 2 ^ 24"
  shows "round32 (real n) = Some (real n)"
proof -
  from assms have "real n \<le> 2 ^ 24" by (metis of_nat_le_iff of_nat_numeral of_nat_power)
  then have "\<bar>real_of_int (int n) * 2 powi 0\<bar> < 2 ^ 128" by simp
  moreover from assms have "\<bar>int n\<bar> \<le> 2 ^ 24" by simp
  ultimately have "round32 (of_int (int n) * 2 powi 0) = Some (of_int (int n) * 2 powi 0)"
    by (intro round32_repr) (simp, assumption+)
  then show ?thesis by simp
qed

lemma round32_0 [simp]: "round32 0 = Some 0"
  by (simp add: round32_def)

lemma round32_1 [simp]: "round32 1 = Some 1"
  using round32_nat [of 1] by simp

lemma round32_2 [simp]: "round32 2 = Some 2"
  using round32_nat [of 2] by simp

lemma round32_powi:
  assumes "- 149 \<le> j" "j \<le> 127"
  shows "round32 (2 powi j) = Some (2 powi j)"
proof -
  from assms(2) have "(2::real) powi j \<le> 2 powi 127" by (intro power_int_increasing) simp_all
  then have b: "\<bar>real_of_int 1 * 2 powi j\<bar> < 2 ^ 128" by simp
  have "round32 (of_int 1 * 2 powi j) = Some (of_int 1 * 2 powi j)"
    using assms(1) _ b by (rule round32_repr) simp
  then show ?thesis by simp
qed

lemma round32_nonneg:
  assumes "0 \<le> x" "round32 x = Some a"
  shows "0 \<le> a"
  using round32_val_nonneg [OF assms(1)] round32_Some_val [OF assms(2)] by simp

lemma round32_neg: "round32 (- x) = map_option uminus (round32 x)"
  by (simp add: round32_def round32_val_neg)

lemma round32_overflow:
  assumes "2 ^ 128 \<le> x"
  shows "round32 x = None"
proof -
  have "round32_val (of_int (2 ^ 24) * 2 powi 104) = of_int (2 ^ 24) * 2 powi 104"
    by (rule round32_val_repr) simp_all
  moreover have "real_of_int (2 ^ 24) * 2 powi 104 = 2 ^ 128" by simp
  ultimately have "round32_val (2 ^ 128) = 2 ^ 128" by simp
  with round32_val_mono [OF assms] have "2 ^ 128 \<le> round32_val x" by simp
  then show ?thesis by (simp add: round32_def)
qed

lemma round32_eval:
  assumes "2 powi L \<le> \<bar>x\<bar>" "\<bar>x\<bar> < 2 powi (L + 1)" "e = max (L - 23) (- 149)"
    "round_even (x / 2 powi e) = k" "\<bar>real_of_int k * 2 powi e\<bar> < 2 ^ 128"
  shows "round32 x = Some (of_int k * 2 powi e)"
proof -
  have "0 < \<bar>x\<bar>" by (rule less_le_trans [OF two_powi_pos assms(1)])
  then have "x \<noteq> 0" by simp
  with f32_exponent_eq [OF assms(1,2)] assms(3,4,5) show ?thesis
    by (simp add: round32_def round32_val_def)
qed

lemma round32_2p24_1: "round32 (2 ^ 24 + 1) = Some (2 ^ 24)"
proof -
  have "round_even ((2 ^ 24 + 1) / 2 powi 1) = 2 ^ 23"
    by (simp add: round_even_def)
  from round32_eval [of 24 "2 ^ 24 + 1" 1, OF _ _ _ this] show ?thesis by simp
qed

lemma round32_tenth: "round32 (1 / 10) = Some (13421773 / 134217728)"
proof -
  have "round_even (1 / 10 / 2 powi (- 27)) = 13421773"
    by (simp add: round_even_def power_int_minus)
  from round32_eval [of "- 4" "1 / 10" "- 27", OF _ _ _ this] show ?thesis
    by (simp add: power_int_minus)
qed

lemma round32_tiny: "round32 (2 powi (- 150)) = Some 0"
proof -
  have "round_even (2 powi (- 150) / 2 powi (- 149)) = 0"
    by (simp add: round_even_def power_int_minus)
  from round32_eval [of "- 150" "2 powi (- 150)" "- 149", OF _ _ _ this] show ?thesis
    by (simp add: power_int_minus)
qed

lemma round32_32_half_ulp: "round32 (32 + 2 powi (- 19)) = Some 32"
proof -
  have "round_even ((32 + 2 powi (- 19)) / 2 powi (- 18)) = 2 ^ 23"
    by (simp add: round_even_def power_int_minus)
  from round32_eval [of 5 "32 + 2 powi (- 19)" "- 18", OF _ _ _ this] show ?thesis
    by (simp add: power_int_minus)
qed

section \<open>Properties of the tensor operations\<close>

lemma and_then_Inr [simp]: "and_then (Inr v) f = f v"
  by (simp add: and_then_def)

lemma and_then_Inl [simp]: "and_then (Inl e) f = Inl e"
  by (simp add: and_then_def)

lemma in_bounds_Nil [simp]: "in_bounds [] idx \<longleftrightarrow> idx = []"
  by (simp add: in_bounds_def)

lemma in_bounds_Cons: "in_bounds (n # s) idx \<longleftrightarrow> (\<exists>i r. idx = i # r \<and> i < n \<and> in_bounds s r)"
  by (auto simp: in_bounds_def list_all2_Cons2)

lemma in_bounds_Cons_Cons [simp]: "in_bounds (n # s) (i # r) \<longleftrightarrow> i < n \<and> in_bounds s r"
  by (simp add: in_bounds_def)

lemma in_bounds_length: "in_bounds s idx \<Longrightarrow> length idx = length s"
  by (simp add: in_bounds_def list_all2_lengthD)

lemma in_bounds_snoc_snoc [simp]: "in_bounds (s @ [n]) (p @ [j]) \<longleftrightarrow> j < n \<and> in_bounds s p"
proof
  assume "in_bounds (s @ [n]) (p @ [j])"
  then have l: "length p = length s" and a: "list_all2 (\<lambda>i n. i < n) (p @ [j]) (s @ [n])"
    by (auto simp: in_bounds_def dest: list_all2_lengthD)
  from a l show "j < n \<and> in_bounds s p"
    by (simp add: in_bounds_def list_all2_append)
next
  assume "j < n \<and> in_bounds s p"
  then show "in_bounds (s @ [n]) (p @ [j])"
    by (simp add: in_bounds_def list_all2_appendI)
qed

lemma in_bounds_snoc: "in_bounds (s @ [n]) idx \<longleftrightarrow> (\<exists>p j. idx = p @ [j] \<and> j < n \<and> in_bounds s p)"
proof
  assume a: "in_bounds (s @ [n]) idx"
  then have "idx \<noteq> []" by (auto simp: in_bounds_def)
  then obtain p j where "idx = p @ [j]" by (metis rev_exhaust)
  with a show "\<exists>p j. idx = p @ [j] \<and> j < n \<and> in_bounds s p" by simp
qed auto

lemma in_bounds2: "in_bounds [a, b] idx \<longleftrightarrow> (\<exists>i j. idx = [i, j] \<and> i < a \<and> j < b)"
  by (auto simp: in_bounds_Cons)

lemma snoc_update: "length p = k \<Longrightarrow> (p @ [j])[k := v] = p @ [v]"
  by (simp add: list_update_append)

subsection \<open>Broadcasting\<close>

lemma bcast_fix: "in_bounds s p \<Longrightarrow> map2 (\<lambda>n i. if n = Suc 0 then 0 else i) s p = p"
  unfolding in_bounds_def
  by (induction p s rule: list_all2_induct) auto

lemma bcast_index_id: "in_bounds s p \<Longrightarrow> bcast_index s p = p"
  by (simp add: bcast_index_def bcast_fix in_bounds_length)

lemma map2_ones: "map2 (\<lambda>x y. if x = Suc 0 then y else x) s (replicate (length s) (Suc 0)) = s"
  by (induction s) auto

lemma list_all2_ones: "list_all2 (\<lambda>x y. x = y \<or> x = Suc 0 \<or> y = Suc 0) s (replicate (length s) (Suc 0))"
  by (induction s) auto

lemma broadcast_shapes_last: "broadcast_shapes (s @ [Suc 0]) [n] = Some (s @ [n])"
  by (simp add: broadcast_shapes_def pad_shape_def list_all2_appendI list_all2_ones map2_ones)

lemma shape_dim_t [simp]: "shape (dim_t cfg) = [num_pos_feats cfg]"
  by (simp add: dim_t_def tensor_map_def torch_arange_def)

lemma bcast_index_last:
  assumes "in_bounds s p" "j < n"
  shows "bcast_index (s @ [Suc 0]) (p @ [j]) = p @ [0]" and "bcast_index [n] (p @ [j]) = [j]"
  using assms by (auto simp: bcast_index_def in_bounds_length bcast_fix)

lemma broadcast_shapes_keepdim:
  assumes "d < length s"
  shows "broadcast_shapes s (s[d := keep1 (s ! d)]) = Some s"
proof -
  let ?m = "keep1 (s ! d)"
  have a: "list_all2 (\<lambda>x y. x = y \<or> x = Suc 0 \<or> y = Suc 0) s (s[d := ?m])"
    using assms by (auto simp: list_all2_conv_all_nth nth_list_update keep1_def)
  have b: "map2 (\<lambda>x y. if x = Suc 0 then y else x) s (s[d := ?m]) = s"
    using assms by (intro nth_equalityI) (auto simp: nth_list_update keep1_def)
  from a b show ?thesis
    by (simp add: broadcast_shapes_def pad_shape_def)
qed

lemma bcast_index_keepdim:
  assumes "in_bounds s idx" "d < length s"
  shows "bcast_index (s[d := keep1 (s ! d)]) idx = idx[d := 0]"
proof -
  from assms(1) have l: "length idx = length s" and b: "\<forall>i<length s. idx ! i < s ! i"
    by (auto simp: in_bounds_def list_all2_conv_all_nth)
  show ?thesis
    unfolding bcast_index_def
    by (rule nth_equalityI) (use l b assms(2) in \<open>auto simp: nth_list_update keep1_def\<close>)
qed

subsection \<open>Slices, stack and flatten, cat, permute\<close>

lemma slice_length_even [simp]: "slice_length n 0 2 = (n + 1) div 2"
  by (simp add: slice_length_def slice_start_def)

lemma slice_length_odd [simp]: "slice_length n 1 2 = n div 2"
  by (cases n) (auto simp: slice_length_def slice_start_def)

lemma slice_start_0 [simp]: "slice_start n 0 = 0"
  by (simp add: slice_start_def)

lemma slice_start_1 [simp]: "0 < n \<Longrightarrow> slice_start n 1 = 1"
  by (simp add: slice_start_def)

lemma slice_last [simp]: "slice_start n (- 1) = n - 1" "slice_length n (- 1) (Suc 0) = keep1 n"
  by (auto simp: slice_start_def slice_length_def keep1_def)

lemma div_dim_t_ok:
  assumes "shape e = s" "d = length s"
  shows "\<exists>out. div_dim_t cfg e d = Inr out \<and> shape out = s @ [num_pos_feats cfg] \<and>
           (\<forall>p j. in_bounds s p \<longrightarrow> j < num_pos_feats cfg \<longrightarrow>
              elem out (p @ [j]) = fdiv (elem e p) (elem (dim_t cfg) [j]))"
  using assms
  by (auto simp: div_dim_t_def tensor_unsqueeze_def tensor_div_def tensor_binop_def
      broadcast_shapes_last bcast_index_last in_bounds_length)

lemma stack_sin_cos_odd:
  assumes "shape pos = s @ [n]" "d = length s" "odd n"
  shows "stack_sin_cos pos d d = Inl StackSizeError"
proof -
  from \<open>odd n\<close> have "(n + 1) div 2 \<noteq> n div 2" by presburger
  with assms show ?thesis
    by (simp add: stack_sin_cos_def tensor_slice_def torch_stack_def tensor_map_def)
qed

lemma stack_sin_cos_even:
  assumes "shape pos = s @ [n]" "d = length s" "even n"
  shows "\<exists>out. stack_sin_cos pos d d = Inr out \<and> shape out = s @ [n] \<and>
           (\<forall>p j. length p = length s \<longrightarrow> j < n \<longrightarrow>
              elem out (p @ [j]) =
                (if j < n div 2 then fsin (elem pos (p @ [2 * j]))
                 else fcos (elem pos (p @ [2 * (j - n div 2) + 1]))))"
proof -
  from \<open>even n\<close> have e: "(n + 1) div 2 = n div 2" and n: "2 * (n div 2) = n" by presburger+
  have m: "j mod (n div 2) = j - n div 2" "j div (n div 2) = Suc 0" if "j < n" "\<not> j < n div 2" for j
  proof -
    from that n have a: "n div 2 \<le> j" "j - n div 2 < n div 2" "0 < n div 2" by linarith+
    from a show "j mod (n div 2) = j - n div 2" by (simp add: le_mod_geq)
    from a show "j div (n div 2) = Suc 0" by (simp add: le_div_geq)
  qed
  from assms e n show ?thesis
    by (auto simp: stack_sin_cos_def tensor_slice_def torch_stack_def tensor_map_def
        tensor_flatten_def nth_append m snoc_update)
qed

lemma axis_encoding:
  assumes "shape e = s" "d = length s" "even (num_pos_feats cfg)"
  shows "\<exists>pos out. div_dim_t cfg e d = Inr pos \<and> stack_sin_cos pos d d = Inr out \<and>
           shape out = s @ [num_pos_feats cfg] \<and>
           (\<forall>p j. in_bounds s p \<longrightarrow> j < num_pos_feats cfg \<longrightarrow>
              elem out (p @ [j]) = band cfg (elem e p) j)"
proof -
  let ?n = "num_pos_feats cfg"
  from div_dim_t_ok [OF assms(1,2), of cfg] obtain pos where
    pos: "div_dim_t cfg e d = Inr pos" "shape pos = s @ [?n]"
    "\<forall>p j. in_bounds s p \<longrightarrow> j < ?n \<longrightarrow> elem pos (p @ [j]) = fdiv (elem e p) (elem (dim_t cfg) [j])"
    by blast
  from stack_sin_cos_even [OF pos(2) assms(2,3)] obtain out where
    out: "stack_sin_cos pos d d = Inr out" "shape out = s @ [?n]"
    "\<forall>p j. length p = length s \<longrightarrow> j < ?n \<longrightarrow>
       elem out (p @ [j]) =
         (if j < ?n div 2 then fsin (elem pos (p @ [2 * j]))
          else fcos (elem pos (p @ [2 * (j - ?n div 2) + 1])))"
    by blast
  have "elem out (p @ [j]) = band cfg (elem e p) j" if "in_bounds s p" "j < ?n" for p j
  proof -
    from assms(3) have n: "2 * (?n div 2) = ?n" by presburger
    from that n have a: "j < ?n div 2 \<Longrightarrow> 2 * j < ?n"
      and b: "\<not> j < ?n div 2 \<Longrightarrow> 2 * (j - ?n div 2) + 1 < ?n" by linarith+
    from that out(3) have "elem out (p @ [j]) =
         (if j < ?n div 2 then fsin (elem pos (p @ [2 * j]))
          else fcos (elem pos (p @ [2 * (j - ?n div 2) + 1])))"
      by (simp add: in_bounds_length)
    with that a b pos(3) show ?thesis by (simp add: band_def)
  qed
  with pos(1) out(1,2) show ?thesis by simp
qed

lemma torch_cat3_last:
  assumes "shape a = s @ [n]" "shape b = s @ [n]" "shape c = s @ [n]" "d = length s"
  shows "\<exists>out. torch_cat [a, b, c] d = Inr out \<and> shape out = s @ [3 * n] \<and>
           (\<forall>p j. length p = length s \<longrightarrow> j < 3 * n \<longrightarrow>
              elem out (p @ [j]) =
                (if j < n then elem a (p @ [j])
                 else if j < 2 * n then elem b (p @ [j - n])
                 else elem c (p @ [j - 2 * n])))"
  using assms by (auto simp: cat2_def nth_append snoc_update mult_2)

lemma third_split:
  fixes c n :: nat
  assumes "c < 3 * n"
  shows "(c < n \<longrightarrow> c div n = 0 \<and> c mod n = c) \<and>
         (n \<le> c \<and> c < 2 * n \<longrightarrow> c div n = 1 \<and> c mod n = c - n) \<and>
         (2 * n \<le> c \<longrightarrow> c div n = 2 \<and> c mod n = c - 2 * n)"
proof (intro conjI impI)
  assume a: "n \<le> c \<and> c < 2 * n"
  then have "c - n < n" "n \<le> c" "0 < n" by linarith+
  then show "c div n = 1" "c mod n = c - n" by (simp_all add: le_div_geq le_mod_geq)
next
  assume a: "2 * n \<le> c"
  with assms have "c - n - n < n" "n \<le> c - n" "n \<le> c" "0 < n" by linarith+
  then show "c div n = 2" "c mod n = c - 2 * n" by (simp_all add: le_div_geq le_mod_geq mult_2)
qed simp_all

lemma tensor_permute_channels:
  assumes "shape t = [B, X, Y, Z, F]"
  shows "tensor_permute t [0, 4, 1, 2, 3] =
           Inr (Tensor [B, F, X, Y, Z] (\<lambda>idx. elem t [idx ! 0, idx ! 2, idx ! 3, idx ! 4, idx ! 1]))"
proof -
  have u: "[0..<5] = [0, 1, 2, 3, 4::nat]"
    by (simp add: upt_rec)
  have "sort [0, 4, 1, 2, 3::nat] = [0..<5]"
    by (simp add: u)
  with assms show ?thesis
    by (simp add: tensor_permute_def u index_of_def eval_nat_numeral)
qed

lemma band_cong: "num_pos_feats c1 = num_pos_feats c2 \<Longrightarrow> temperature c1 = temperature c2 \<Longrightarrow> band c1 = band c2"
  by (auto simp: band_def dim_t_def fun_eq_iff)

section \<open>The sparse encoder in closed form\<close>

lemma sparse_normalize_ok:
  assumes "shape e = [N]"
  shows "\<exists>out. sparse_normalize cfg e = Inr out \<and> shape out = [N] \<and>
           (\<forall>r<N. elem out [r] = fmul_scalar (fdiv (elem e [r]) (fadd_scalar (elem e [r]) eps)) (scale cfg))"
  using assms
  by (auto simp: sparse_normalize_def tensor_div_def tensor_binop_def broadcast_shapes_def
      pad_shape_def tensor_map_def bcast_index_def)

lemma sparse_embed_ok:
  assumes "shape coords = [N, 3]"
  shows "\<exists>xe ye ze. sparse_embed cfg coords = Inr (xe, ye, ze) \<and>
           shape xe = [N] \<and> shape ye = [N] \<and> shape ze = [N] \<and>
           (\<forall>r<N. elem xe [r] = sparse_coord cfg (to_float32 (elem coords [r, 0])) \<and>
                  elem ye [r] = sparse_coord cfg (to_float32 (elem coords [r, 1])) \<and>
                  elem ze [r] = sparse_coord cfg (to_float32 (elem coords [r, 2])))"
proof -
  define c32 where "c32 = tensor_map to_float32 coords"
  have s32: "shape c32 = [N, 3]" and e32: "\<And>idx. elem c32 idx = to_float32 (elem coords idx)"
    using assms by (simp_all add: c32_def tensor_map_def)
  define xe where "xe = Tensor [N] (\<lambda>idx. elem c32 (take 1 idx @ [0] @ drop 1 idx))"
  define ye where "ye = Tensor [N] (\<lambda>idx. elem c32 (take 1 idx @ [1] @ drop 1 idx))"
  define ze where "ze = Tensor [N] (\<lambda>idx. elem c32 (take 1 idx @ [2] @ drop 1 idx))"
  have sel: "tensor_select c32 1 0 = Inr xe" "tensor_select c32 1 1 = Inr ye"
    "tensor_select c32 1 2 = Inr ze"
    using s32 by (simp_all add: tensor_select_def xe_def ye_def ze_def)
  have sh: "shape xe = [N]" "shape ye = [N]" "shape ze = [N]"
    by (simp_all add: xe_def ye_def ze_def)
  have el: "elem xe [r] = to_float32 (elem coords [r, 0])"
    "elem ye [r] = to_float32 (elem coords [r, 1])"
    "elem ze [r] = to_float32 (elem coords [r, 2])" for r
    by (simp_all add: xe_def ye_def ze_def e32)
  show ?thesis
  proof (cases "normalize cfg")
    case False
    then have "sparse_embed cfg coords = Inr (xe, ye, ze)"
      using sel by (simp add: sparse_embed_def Let_def c32_def [symmetric])
    with False sh el show ?thesis
      by (simp add: sparse_coord_def)
  next
    case True
    from sparse_normalize_ok [OF sh(1), of cfg] obtain xn where
      xn: "sparse_normalize cfg xe = Inr xn" "shape xn = [N]"
      "\<forall>r<N. elem xn [r] = fmul_scalar (fdiv (elem xe [r]) (fadd_scalar (elem xe [r]) eps)) (scale cfg)"
      by blast
    from sparse_normalize_ok [OF sh(2), of cfg] obtain yn where
      yn: "sparse_normalize cfg ye = Inr yn" "shape yn = [N]"
      "\<forall>r<N. elem yn [r] = fmul_scalar (fdiv (elem ye [r]) (fadd_scalar (elem ye [r]) eps)) (scale cfg)"
      by blast
    from sparse_normalize_ok [OF sh(3), of cfg] obtain zn where
      zn: "sparse_normalize cfg ze = Inr zn" "shape zn = [N]"
      "\<forall>r<N. elem zn [r] = fmul_scalar (fdiv (elem ze [r]) (fadd_scalar (elem ze [r]) eps)) (scale cfg)"
      by blast
    have "sparse_embed cfg coords = Inr (xn, yn, zn)"
      using True sel xn(1) yn(1) zn(1) by (simp add: sparse_embed_def Let_def c32_def [symmetric])
    moreover have "\<forall>r<N. elem xn [r] = sparse_coord cfg (to_float32 (elem coords [r, 0])) \<and>
                    elem yn [r] = sparse_coord cfg (to_float32 (elem coords [r, 1])) \<and>
                    elem zn [r] = sparse_coord cfg (to_float32 (elem coords [r, 2]))"
      using True xn(3) yn(3) zn(3) by (simp add: sparse_coord_def el)
    ultimately show ?thesis using xn(2) yn(2) zn(2) by blast
  qed
qed

lemma sparse_pos_odd:
  assumes "shape coords = [N, 3]" "odd (num_pos_feats cfg)"
  shows "sparse_pos cfg coords = Inl StackSizeError"
proof -
  from sparse_embed_ok [OF assms(1), of cfg] obtain xe ye ze where
    e: "sparse_embed cfg coords = Inr (xe, ye, ze)" "shape xe = [N]" "shape ye = [N]" "shape ze = [N]"
    by blast
  from div_dim_t_ok [OF e(2), of 1 cfg] obtain px where
    px: "div_dim_t cfg xe 1 = Inr px" "shape px = [N] @ [num_pos_feats cfg]" by auto
  from div_dim_t_ok [OF e(3), of 1 cfg] obtain py where
    py: "div_dim_t cfg ye 1 = Inr py" by auto
  from div_dim_t_ok [OF e(4), of 1 cfg] obtain pz where
    pz: "div_dim_t cfg ze 1 = Inr pz" by auto
  have "stack_sin_cos px 1 1 = Inl StackSizeError"
    using stack_sin_cos_odd [OF px(2) _ assms(2)] by simp
  with e(1) px(1) py pz show ?thesis
    by (simp add: sparse_pos_def)
qed

lemma sparse_pos_even:
  assumes "shape coords = [N, 3]" "even (num_pos_feats cfg)"
  shows "\<exists>px py pz. sparse_pos cfg coords = Inr (px, py, pz) \<and>
           shape px = [N, num_pos_feats cfg] \<and> shape py = [N, num_pos_feats cfg] \<and>
           shape pz = [N, num_pos_feats cfg] \<and>
           (\<forall>r j. r < N \<longrightarrow> j < num_pos_feats cfg \<longrightarrow>
              elem px [r, j] = band cfg (sparse_coord cfg (to_float32 (elem coords [r, 0]))) j \<and>
              elem py [r, j] = band cfg (sparse_coord cfg (to_float32 (elem coords [r, 1]))) j \<and>
              elem pz [r, j] = band cfg (sparse_coord cfg (to_float32 (elem coords [r, 2]))) j)"
proof -
  let ?n = "num_pos_feats cfg"
  from sparse_embed_ok [OF assms(1), of cfg] obtain xe ye ze where
    e: "sparse_embed cfg coords = Inr (xe, ye, ze)" "shape xe = [N]" "shape ye = [N]" "shape ze = [N]"
    "\<forall>r<N. elem xe [r] = sparse_coord cfg (to_float32 (elem coords [r, 0])) \<and>
            elem ye [r] = sparse_coord cfg (to_float32 (elem coords [r, 1])) \<and>
            elem ze [r] = sparse_coord cfg (to_float32 (elem coords [r, 2]))"
    by blast
  from axis_encoding [OF e(2) _ assms(2), of 1] obtain dx px where
    px: "div_dim_t cfg xe 1 = Inr dx" "stack_sin_cos dx 1 1 = Inr px" "shape px = [N] @ [?n]"
    "\<forall>p j. in_bounds [N] p \<longrightarrow> j < ?n \<longrightarrow> elem px (p @ [j]) = band cfg (elem xe p) j"
    by auto
  from axis_encoding [OF e(3) _ assms(2), of 1] obtain dy py where
    py: "div_dim_t cfg ye 1 = Inr dy" "stack_sin_cos dy 1 1 = Inr py" "shape py = [N] @ [?n]"
    "\<forall>p j. in_bounds [N] p \<longrightarrow> j < ?n \<longrightarrow> elem py (p @ [j]) = band cfg (elem ye p) j"
    by auto
  from axis_encoding [OF e(4) _ assms(2), of 1] obtain dz pz where
    pz: "div_dim_t cfg ze 1 = Inr dz" "stack_sin_cos dz 1 1 = Inr pz" "shape pz = [N] @ [?n]"
    "\<forall>p j. in_bounds [N] p \<longrightarrow> j < ?n \<longrightarrow> elem pz (p @ [j]) = band cfg (elem ze p) j"
    by auto
  have "sparse_pos cfg coords = Inr (px, py, pz)"
    using e(1) px(1,2) py(1,2) pz(1,2) by (simp add: sparse_pos_def)
  moreover have "elem px [r, j] = band cfg (sparse_coord cfg (to_float32 (elem coords [r, 0]))) j \<and>
      elem py [r, j] = band cfg (sparse_coord cfg (to_float32 (elem coords [r, 1]))) j \<and>
      elem pz [r, j] = band cfg (sparse_coord cfg (to_float32 (elem coords [r, 2]))) j"
    if "r < N" "j < ?n" for r j
    using that e(5) px(4) [rule_format, of "[r]" j] py(4) [rule_format, of "[r]" j]
      pz(4) [rule_format, of "[r]" j]
    by simp
  ultimately show ?thesis using px(3) py(3) pz(3) by simp
qed

lemma sparse_forward_even:
  assumes "shape coords = [N, 3]" "even (num_pos_feats cfg)"
  shows "\<exists>out. PositionEmbeddingSineSparse_forward cfg coords = Inr out \<and>
           shape out = [N, 3 * num_pos_feats cfg] \<and>
           (\<forall>r j. r < N \<longrightarrow> j < 3 * num_pos_feats cfg \<longrightarrow>
              elem out [r, j] =
                band cfg (sparse_coord cfg (to_float32 (elem coords [r, j div num_pos_feats cfg])))
                  (j mod num_pos_feats cfg))"
proof -
  let ?n = "num_pos_feats cfg"
  from sparse_pos_even [OF assms] obtain px py pz where
    p: "sparse_pos cfg coords = Inr (px, py, pz)"
    "shape px = [N] @ [?n]" "shape py = [N] @ [?n]" "shape pz = [N] @ [?n]"
    "\<forall>r j. r < N \<longrightarrow> j < ?n \<longrightarrow>
       elem px [r, j] = band cfg (sparse_coord cfg (to_float32 (elem coords [r, 0]))) j \<and>
       elem py [r, j] = band cfg (sparse_coord cfg (to_float32 (elem coords [r, 1]))) j \<and>
       elem pz [r, j] = band cfg (sparse_coord cfg (to_float32 (elem coords [r, 2]))) j"
    by auto
  from torch_cat3_last [OF p(2,3,4), of 1] obtain out where
    out: "torch_cat [px, py, pz] 1 = Inr out" "shape out = [N] @ [3 * ?n]"
    "\<forall>p j. length p = length [N] \<longrightarrow> j < 3 * ?n \<longrightarrow>
       elem out (p @ [j]) =
         (if j < ?n then elem px (p @ [j])
          else if j < 2 * ?n then elem py (p @ [j - ?n])
          else elem pz (p @ [j - 2 * ?n]))"
    by auto
  have "elem out [r, j] = band cfg (sparse_coord cfg (to_float32 (elem coords [r, j div ?n]))) (j mod ?n)"
    if "r < N" "j < 3 * ?n" for r j
  proof -
    consider "j < ?n" | "?n \<le> j" "j < 2 * ?n" | "2 * ?n \<le> j" by linarith
    then show ?thesis
    proof cases
      case 1
      with that out(3) [rule_format, of "[r]" j] p(5) show ?thesis by simp
    next
      case 2
      then have "j div ?n = 1" "j mod ?n = j - ?n"
        by (simp_all add: le_div_geq le_mod_geq)
      with 2 that out(3) [rule_format, of "[r]" j] p(5) [rule_format, of r "j - ?n"]
      show ?thesis by simp
    next
      case 3
      with that have "j - ?n - ?n < ?n" "?n \<le> j - ?n" "?n \<le> j" "0 < ?n" by linarith+
      then have "j div ?n = 2" "j mod ?n = j - 2 * ?n"
        by (simp_all add: le_div_geq le_mod_geq mult_2)
      with 3 that out(3) [rule_format, of "[r]" j] p(5) [rule_format, of r "j - 2 * ?n"]
      show ?thesis by simp
    qed
  qed
  with p(1) out(1,2) show ?thesis
    by (simp add: PositionEmbeddingSineSparse_forward_def)
qed

lemma sparse_forward_odd:
  assumes "shape coords = [N, 3]" "odd (num_pos_feats cfg)"
  shows "PositionEmbeddingSineSparse_forward cfg coords = Inl StackSizeError"
  using sparse_pos_odd [OF assms] by (simp add: PositionEmbeddingSineSparse_forward_def)

section \<open>The dense encoder in closed form\<close>

lemma tensor_cumsum_not:
  assumes "d < length (shape m)"
  shows "tensor_cumsum (tensor_map Not m) d = Inr (Tensor (shape m) (\<lambda>idx. count32 m d idx))"
  using assms by (simp add: tensor_cumsum_def tensor_map_def rank_def count32_def del: upt_Suc)

lemma eps_pos: "0 < eps"
  by (simp add: eps_def)

lemma dense_normalize_ok:
  assumes "shape e = s" "d < length s"
  shows "\<exists>out. dense_normalize cfg e d = Inr out \<and> shape out = s \<and>
           (\<forall>idx. in_bounds s idx \<longrightarrow>
              elem out idx =
                fmul_scalar (fdiv (elem e idx) (fadd_scalar (elem e (idx[d := s ! d - 1])) eps)) (scale cfg))"
  using assms
  by (auto simp: dense_normalize_def tensor_slice_def tensor_div_def tensor_binop_def
      tensor_map_def broadcast_shapes_keepdim bcast_index_keepdim bcast_index_id in_bounds_length)

lemma dense_embed_ok:
  assumes "shape m = [B, X, Y, Z]"
  shows "\<exists>xe ye ze. dense_embed cfg x (Some m) = Inr (xe, ye, ze) \<and>
           shape xe = [B, X, Y, Z] \<and> shape ye = [B, X, Y, Z] \<and> shape ze = [B, X, Y, Z] \<and>
           (\<forall>idx. in_bounds [B, X, Y, Z] idx \<longrightarrow>
              elem xe idx = dense_coord cfg m 1 idx \<and>
              elem ye idx = dense_coord cfg m 2 idx \<and>
              elem ze idx = dense_coord cfg m 3 idx)"
proof -
  let ?s = "[B, X, Y, Z]"
  define cx where "cx = Tensor (shape m) (\<lambda>idx. count32 m 1 idx)"
  define cy where "cy = Tensor (shape m) (\<lambda>idx. count32 m 2 idx)"
  define cz where "cz = Tensor (shape m) (\<lambda>idx. count32 m 3 idx)"
  have c: "tensor_cumsum (tensor_map Not m) 1 = Inr cx" "tensor_cumsum (tensor_map Not m) 2 = Inr cy"
    "tensor_cumsum (tensor_map Not m) 3 = Inr cz"
    using assms by (simp_all add: tensor_cumsum_not cx_def cy_def cz_def)
  have sh: "shape cx = ?s" "shape cy = ?s" "shape cz = ?s"
    using assms by (simp_all add: cx_def cy_def cz_def)
  show ?thesis
  proof (cases "normalize cfg")
    case False
    with c sh show ?thesis
      by (simp add: dense_embed_def default_mask_def dense_coord_def cx_def cy_def cz_def)
  next
    case True
    from dense_normalize_ok [OF sh(1), of 1 cfg] obtain xn where
      xn: "dense_normalize cfg cx 1 = Inr xn" "shape xn = ?s"
      "\<forall>idx. in_bounds ?s idx \<longrightarrow> elem xn idx =
         fmul_scalar (fdiv (elem cx idx) (fadd_scalar (elem cx (idx[1 := ?s ! 1 - 1])) eps)) (scale cfg)"
      by auto
    from dense_normalize_ok [OF sh(2), of 2 cfg] obtain yn where
      yn: "dense_normalize cfg cy 2 = Inr yn" "shape yn = ?s"
      "\<forall>idx. in_bounds ?s idx \<longrightarrow> elem yn idx =
         fmul_scalar (fdiv (elem cy idx) (fadd_scalar (elem cy (idx[2 := ?s ! 2 - 1])) eps)) (scale cfg)"
      by auto
    from dense_normalize_ok [OF sh(3), of 3 cfg] obtain zn where
      zn: "dense_normalize cfg cz 3 = Inr zn" "shape zn = ?s"
      "\<forall>idx. in_bounds ?s idx \<longrightarrow> elem zn idx =
         fmul_scalar (fdiv (elem cz idx) (fadd_scalar (elem cz (idx[3 := ?s ! 3 - 1])) eps)) (scale cfg)"
      by auto
    have "dense_embed cfg x (Some m) = Inr (xn, yn, zn)"
      using True c xn(1) yn(1) zn(1) by (simp add: dense_embed_def default_mask_def)
    moreover have "elem xn idx = dense_coord cfg m 1 idx" if "in_bounds ?s idx" for idx
      using that True xn(3) assms by (simp add: dense_coord_def cx_def)
    moreover have "elem yn idx = dense_coord cfg m 2 idx" if "in_bounds ?s idx" for idx
      using that True yn(3) assms by (simp add: dense_coord_def cy_def)
    moreover have "elem zn idx = dense_coord cfg m 3 idx" if "in_bounds ?s idx" for idx
      using that True zn(3) assms by (simp add: dense_coord_def cz_def)
    ultimately show ?thesis using xn(2) yn(2) zn(2) by simp
  qed
qed

lemma dense_pos_odd:
  assumes "shape m = [B, X, Y, Z]" "odd (num_pos_feats cfg)"
  shows "dense_pos cfg x (Some m) = Inl StackSizeError"
proof -
  from dense_embed_ok [OF assms(1), of cfg x] obtain xe ye ze where
    e: "dense_embed cfg x (Some m) = Inr (xe, ye, ze)"
    "shape xe = [B, X, Y, Z]" "shape ye = [B, X, Y, Z]" "shape ze = [B, X, Y, Z]"
    by blast
  from div_dim_t_ok [OF e(2), of 4 cfg] obtain px where
    px: "div_dim_t cfg xe 4 = Inr px" "shape px = [B, X, Y, Z] @ [num_pos_feats cfg]" by auto
  from div_dim_t_ok [OF e(3), of 4 cfg] obtain py where
    py: "div_dim_t cfg ye 4 = Inr py" by auto
  from div_dim_t_ok [OF e(4), of 4 cfg] obtain pz where
    pz: "div_dim_t cfg ze 4 = Inr pz" by auto
  have "stack_sin_cos px 4 4 = Inl StackSizeError"
    using stack_sin_cos_odd [OF px(2) _ assms(2), of 4] by simp
  with e(1) px(1) py pz show ?thesis
    by (simp add: dense_pos_def)
qed

lemma dense_pos_even:
  assumes "shape m = [B, X, Y, Z]" "even (num_pos_feats cfg)"
  shows "\<exists>px py pz. dense_pos cfg x (Some m) = Inr (px, py, pz) \<and>
           shape px = [B, X, Y, Z, num_pos_feats cfg] \<and>
           shape py = [B, X, Y, Z, num_pos_feats cfg] \<and>
           shape pz = [B, X, Y, Z, num_pos_feats cfg] \<and>
           (\<forall>p f. in_bounds [B, X, Y, Z] p \<longrightarrow> f < num_pos_feats cfg \<longrightarrow>
              elem px (p @ [f]) = band cfg (dense_coord cfg m 1 p) f \<and>
              elem py (p @ [f]) = band cfg (dense_coord cfg m 2 p) f \<and>
              elem pz (p @ [f]) = band cfg (dense_coord cfg m 3 p) f)"
proof -
  let ?n = "num_pos_feats cfg" and ?s = "[B, X, Y, Z]"
  from dense_embed_ok [OF assms(1), of cfg x] obtain xe ye ze where
    e: "dense_embed cfg x (Some m) = Inr (xe, ye, ze)" "shape xe = ?s" "shape ye = ?s" "shape ze = ?s"
    "\<forall>idx. in_bounds ?s idx \<longrightarrow>
       elem xe idx = dense_coord cfg m 1 idx \<and>
       elem ye idx = dense_coord cfg m 2 idx \<and>
       elem ze idx = dense_coord cfg m 3 idx"
    by blast
  from axis_encoding [OF e(2) _ assms(2), of 4] obtain dx px where
    px: "div_dim_t cfg xe 4 = Inr dx" "stack_sin_cos dx 4 4 = Inr px" "shape px = ?s @ [?n]"
    "\<forall>p j. in_bounds ?s p \<longrightarrow> j < ?n \<longrightarrow> elem px (p @ [j]) = band cfg (elem xe p) j"
    by auto
  from axis_encoding [OF e(3) _ assms(2), of 4] obtain dy py where
    py: "div_dim_t cfg ye 4 = Inr dy" "stack_sin_cos dy 4 4 = Inr py" "shape py = ?s @ [?n]"
    "\<forall>p j. in_bounds ?s p \<longrightarrow> j < ?n \<longrightarrow> elem py (p @ [j]) = band cfg (elem ye p) j"
    by auto
  from axis_encoding [OF e(4) _ assms(2), of 4] obtain dz pz where
    pz: "div_dim_t cfg ze 4 = Inr dz" "stack_sin_cos dz 4 4 = Inr pz" "shape pz = ?s @ [?n]"
    "\<forall>p j. in_bounds ?s p \<longrightarrow> j < ?n \<longrightarrow> elem pz (p @ [j]) = band cfg (elem ze p) j"
    by auto
  have "dense_pos cfg x (Some m) = Inr (px, py, pz)"
    using e(1) px(1,2) py(1,2) pz(1,2) by (simp add: dense_pos_def)
  moreover have "elem px (p @ [f]) = band cfg (dense_coord cfg m 1 p) f \<and>
      elem py (p @ [f]) = band cfg (dense_coord cfg m 2 p) f \<and>
      elem pz (p @ [f]) = band cfg (dense_coord cfg m 3 p) f"
    if "in_bounds ?s p" "f < ?n" for p f
    using that e(5) px(4) py(4) pz(4) by simp
  ultimately show ?thesis using px(3) py(3) pz(3) by simp
qed

lemma dense_embed_no_mask:
  assumes "shape x = [B, C, X, Y, Z]"
  shows "dense_embed cfg x None = dense_embed cfg x (Some (torch_zeros [B, X, Y, Z]))"
  using assms by (simp add: dense_embed_def default_mask_def tensor_size_def)

lemma dense_forward_no_mask:
  assumes "shape x = [B, C, X, Y, Z]"
  shows "PositionEmbeddingSine_forward cfg x None =
           PositionEmbeddingSine_forward cfg x (Some (torch_zeros [B, X, Y, Z]))"
  by (simp add: PositionEmbeddingSine_forward_def dense_pos_def dense_embed_no_mask [OF assms])

lemma dense_forward_odd:
  assumes "shape m = [B, X, Y, Z]" "odd (num_pos_feats cfg)"
  shows "PositionEmbeddingSine_forward cfg x (Some m) = Inl StackSizeError"
  using dense_pos_odd [OF assms, of x] by (simp add: PositionEmbeddingSine_forward_def)

lemma dense_forward_even:
  assumes "shape m = [B, X, Y, Z]" "even (num_pos_feats cfg)"
  shows "\<exists>out. PositionEmbeddingSine_forward cfg x (Some m) = Inr out \<and>
           shape out = [B, 3 * num_pos_feats cfg, X, Y, Z] \<and>
           (\<forall>b c i j k. b < B \<longrightarrow> c < 3 * num_pos_feats cfg \<longrightarrow> i < X \<longrightarrow> j < Y \<longrightarrow> k < Z \<longrightarrow>
              elem out [b, c, i, j, k] =
                band cfg (dense_coord cfg m (1 + c div num_pos_feats cfg) [b, i, j, k])
                  (c mod num_pos_feats cfg))"
proof -
  let ?n = "num_pos_feats cfg" and ?s = "[B, X, Y, Z]"
  from dense_pos_even [OF assms, of x] obtain px py pz where
    p: "dense_pos cfg x (Some m) = Inr (px, py, pz)"
    "shape px = ?s @ [?n]" "shape py = ?s @ [?n]" "shape pz = ?s @ [?n]"
    "\<forall>p f. in_bounds ?s p \<longrightarrow> f < ?n \<longrightarrow>
       elem px (p @ [f]) = band cfg (dense_coord cfg m 1 p) f \<and>
       elem py (p @ [f]) = band cfg (dense_coord cfg m 2 p) f \<and>
       elem pz (p @ [f]) = band cfg (dense_coord cfg m 3 p) f"
    by auto
  from torch_cat3_last [OF p(2,3,4), of 4] obtain pos where
    pos: "torch_cat [px, py, pz] 4 = Inr pos" "shape pos = ?s @ [3 * ?n]"
    "\<forall>p j. length p = length ?s \<longrightarrow> j < 3 * ?n \<longrightarrow>
       elem pos (p @ [j]) =
         (if j < ?n then elem px (p @ [j])
          else if j < 2 * ?n then elem py (p @ [j - ?n])
          else elem pz (p @ [j - 2 * ?n]))"
    by auto
  define out where
    "out = Tensor [B, 3 * ?n, X, Y, Z] (\<lambda>idx. elem pos [idx ! 0, idx ! 2, idx ! 3, idx ! 4, idx ! 1])"
  have perm: "tensor_permute pos [0, 4, 1, 2, 3] = Inr out"
    using tensor_permute_channels [of pos B X Y Z "3 * ?n"] pos(2) by (simp add: out_def)
  have "elem out [b, c, i, j, k] =
      band cfg (dense_coord cfg m (1 + c div ?n) [b, i, j, k]) (c mod ?n)"
    if "b < B" "c < 3 * ?n" "i < X" "j < Y" "k < Z" for b c i j k
  proof -
    have ib: "in_bounds ?s [b, i, j, k]" using that by simp
    have o: "elem out [b, c, i, j, k] = elem pos ([b, i, j, k] @ [c])" by (simp add: out_def)
    note t = third_split [OF that(2)]
    consider "c < ?n" | "?n \<le> c" "c < 2 * ?n" | "2 * ?n \<le> c" by linarith
    then show ?thesis
    proof cases
      case 1
      with t that(2) pos(3) [rule_format, of "[b, i, j, k]" c]
        p(5) [rule_format, OF ib, of c] o show ?thesis by simp
    next
      case 2
      with t that(2) pos(3) [rule_format, of "[b, i, j, k]" c]
        p(5) [rule_format, OF ib, of "c - ?n"] o show ?thesis
        by (simp add: numeral_2_eq_2 [symmetric])
    next
      case 3
      with that(2) have "c - 2 * ?n < ?n" by linarith
      with 3 t that(2) pos(3) [rule_format, of "[b, i, j, k]" c]
        p(5) [rule_format, OF ib, of "c - 2 * ?n"] o show ?thesis
        by (simp add: numeral_3_eq_3 [symmetric])
    qed
  qed
  moreover have "PositionEmbeddingSine_forward cfg x (Some m) = Inr out"
    using p(1) pos(1) perm by (simp add: PositionEmbeddingSine_forward_def)
  moreover have "shape out = [B, 3 * ?n, X, Y, Z]" by (simp add: out_def)
  ultimately show ?thesis by blast
qed

lemma dense_forward_odd_any:
  assumes "odd (num_pos_feats cfg)" "shape x = [B, C, X, Y, Z]"
    "mask_arg = None \<or> (\<exists>m. mask_arg = Some m \<and> shape m = [B, X, Y, Z])"
  shows "PositionEmbeddingSine_forward cfg x mask_arg = Inl StackSizeError"
proof (cases mask_arg)
  case None
  have "shape (torch_zeros [B, X, Y, Z]) = [B, X, Y, Z]" by (simp add: torch_zeros_def)
  from dense_forward_odd [OF this assms(1), of x] None show ?thesis
    by (simp add: dense_forward_no_mask [OF assms(2)])
next
  case (Some m)
  with assms(3) have "shape m = [B, X, Y, Z]" by simp
  from dense_forward_odd [OF this assms(1), of x] Some show ?thesis by simp
qed

lemma dense_pos_no_mask:
  assumes "shape x = [B, C, X, Y, Z]"
  shows "dense_pos cfg x None = dense_pos cfg x (Some (torch_zeros [B, X, Y, Z]))"
  by (simp add: dense_pos_def dense_embed_no_mask [OF assms])

lemma dense_layout:
  assumes "shape m = [B, X, Y, Z]" "even (num_pos_feats cfg)"
  shows "\<exists>px py pz out. dense_pos cfg x (Some m) = Inr (px, py, pz) \<and>
           PositionEmbeddingSine_forward cfg x (Some m) = Inr out \<and>
           shape out = [B, 3 * num_pos_feats cfg, X, Y, Z] \<and>
           (\<forall>b c i j k. b < B \<longrightarrow> c < 3 * num_pos_feats cfg \<longrightarrow> i < X \<longrightarrow> j < Y \<longrightarrow> k < Z \<longrightarrow>
              elem out [b, c, i, j, k] =
                (if c < num_pos_feats cfg then elem px [b, i, j, k, c]
                 else if c < 2 * num_pos_feats cfg then elem py [b, i, j, k, c - num_pos_feats cfg]
                 else elem pz [b, i, j, k, c - 2 * num_pos_feats cfg]))"
proof -
  let ?n = "num_pos_feats cfg" and ?s = "[B, X, Y, Z]"
  from dense_pos_even [OF assms, of x] obtain px py pz where
    p: "dense_pos cfg x (Some m) = Inr (px, py, pz)"
    "\<forall>p f. in_bounds ?s p \<longrightarrow> f < ?n \<longrightarrow>
       elem px (p @ [f]) = band cfg (dense_coord cfg m 1 p) f \<and>
       elem py (p @ [f]) = band cfg (dense_coord cfg m 2 p) f \<and>
       elem pz (p @ [f]) = band cfg (dense_coord cfg m 3 p) f"
    by auto
  from dense_forward_even [OF assms, of x] obtain out where
    out: "PositionEmbeddingSine_forward cfg x (Some m) = Inr out"
    "shape out = [B, 3 * ?n, X, Y, Z]"
    "\<forall>b c i j k. b < B \<longrightarrow> c < 3 * ?n \<longrightarrow> i < X \<longrightarrow> j < Y \<longrightarrow> k < Z \<longrightarrow>
       elem out [b, c, i, j, k] = band cfg (dense_coord cfg m (1 + c div ?n) [b, i, j, k]) (c mod ?n)"
    by blast
  have "elem out [b, c, i, j, k] =
      (if c < ?n then elem px [b, i, j, k, c]
       else if c < 2 * ?n then elem py [b, i, j, k, c - ?n]
       else elem pz [b, i, j, k, c - 2 * ?n])"
    if "b < B" "c < 3 * ?n" "i < X" "j < Y" "k < Z" for b c i j k
  proof -
    have ib: "in_bounds ?s [b, i, j, k]" using that by simp
    note t = third_split [OF that(2)]
    have o: "elem out [b, c, i, j, k] = band cfg (dense_coord cfg m (1 + c div ?n) [b, i, j, k]) (c mod ?n)"
      using out(3) that by blast
    consider "c < ?n" | "?n \<le> c" "c < 2 * ?n" | "2 * ?n \<le> c" by linarith
    then show ?thesis
    proof cases
      case 1
      with t o p(2) [rule_format, OF ib, of c] show ?thesis by simp
    next
      case 2
      with t o p(2) [rule_format, OF ib, of "c - ?n"] show ?thesis
        by (simp add: numeral_2_eq_2 [symmetric])
    next
      case 3
      with that(2) have "c - 2 * ?n < ?n" by linarith
      with 3 t o p(2) [rule_format, OF ib, of "c - 2 * ?n"] show ?thesis
        by (simp add: numeral_3_eq_3 [symmetric])
    qed
  qed
  with p(1) out(1,2) show ?thesis by blast
qed

section \<open>The frequency table and the cumulative counts\<close>

lemma band_exponent:
  assumes "i < n" "n \<le> 2 ^ 24"
  shows "fdiv_scalar (fmul_scalar (ffloordiv_scalar (round32 (real i)) 2) 2) (real n) =
           round32 (2 * real (i div 2) / real n)"
proof -
  from assms have i: "i \<le> 2 ^ 24" "i div 2 \<le> 2 ^ 24" "2 * (i div 2) \<le> 2 ^ 24" by simp_all
  have f: "\<lfloor>real i / 2\<rfloor> = int (i div 2)"
    using floor_divide_of_nat_eq [of i 2] by simp
  have a: "ffloordiv_scalar (round32 (real i)) 2 = Some (real (i div 2))"
    using round32_nat [OF i(1)] round32_nat [OF i(2)] by (simp add: ffloordiv_scalar_def f)
  have b: "fmul_scalar (Some (real (i div 2))) 2 = Some (2 * real (i div 2))"
    using round32_nat [OF i(3)] by (simp add: fmul_scalar_def mult.commute)
  from assms have "real n \<noteq> 0" by simp
  then show ?thesis
    unfolding a b using round32_nat [OF assms(2)] by (simp add: fdiv_scalar_def)
qed

lemma band_exponent_range:
  assumes "i < n"
  shows "\<exists>e. round32 (2 * real (i div 2) / real n) = Some e \<and> 0 \<le> e \<and> e \<le> 1"
proof -
  from assms have "2 * (i div 2) \<le> n" by simp
  then have "2 * real (i div 2) \<le> real n" by (metis of_nat_le_iff of_nat_mult of_nat_numeral)
  with assms have "2 * real (i div 2) / real n \<le> 1" by simp
  moreover have "0 \<le> 2 * real (i div 2) / real n" by simp
  ultimately show ?thesis
    using round32_between [of 0 "2 * real (i div 2) / real n" 1] by simp
qed

lemma band_exponent_mono:
  assumes "i \<le> j" "round32 (2 * real (i div 2) / real n) = Some a"
    "round32 (2 * real (j div 2) / real n) = Some b"
  shows "a \<le> b"
proof -
  from assms(1) have "i div 2 \<le> j div 2" by (rule div_le_mono)
  then have "2 * real (i div 2) / real n \<le> 2 * real (j div 2) / real n"
    by (simp add: divide_right_mono)
  from round32_mono [OF this assms(2,3)] show ?thesis .
qed

lemma dim_t_elem:
  assumes "i < num_pos_feats cfg" "num_pos_feats cfg \<le> 2 ^ 24"
    "round32 (temperature cfg) = Some t" "0 < t"
    "round32 (2 * real (i div 2) / real (num_pos_feats cfg)) = Some e"
  shows "elem (dim_t cfg) [i] = round32 (t powr e)"
proof -
  have "elem (dim_t cfg) [i] = fpow_scalar (temperature cfg) (Some e)"
    using band_exponent [OF assms(1,2)] assms(5)
    by (simp add: dim_t_def tensor_map_def torch_arange_def)
  also have "\<dots> = round32 (t powr e)"
    using assms(3,4) by (simp add: fpow_scalar_def)
  finally show ?thesis .
qed

lemma powr_between:
  fixes t e :: real
  assumes "0 < t" "0 \<le> e" "e \<le> 1"
  shows "min t 1 \<le> t powr e" "t powr e \<le> max t 1"
proof -
  show "min t 1 \<le> t powr e"
  proof (cases "t \<le> 1")
    case True
    with assms have "t powr 1 \<le> t powr e" by (intro powr_mono') simp_all
    with assms(1) True show ?thesis by simp
  next
    case False
    with assms have "t powr 0 \<le> t powr e" by (intro powr_mono) simp_all
    with assms(1) False show ?thesis by simp
  qed
  show "t powr e \<le> max t 1"
  proof (cases "t \<le> 1")
    case True
    with assms have "t powr e \<le> t powr 0" by (intro powr_mono') simp_all
    with assms(1) True show ?thesis by simp
  next
    case False
    with assms have "t powr e \<le> t powr 1" by (intro powr_mono) simp_all
    with assms(1) False show ?thesis by simp
  qed
qed

lemma dim_t_value:
  assumes "i < num_pos_feats cfg" "num_pos_feats cfg \<le> 2 ^ 24"
    "round32 (temperature cfg) = Some t" "0 < t"
  shows "\<exists>e v. round32 (2 * real (i div 2) / real (num_pos_feats cfg)) = Some e \<and>
           elem (dim_t cfg) [i] = Some v \<and> v = round32_val (t powr e) \<and>
           min t 1 \<le> v \<and> v \<le> max t 1"
proof -
  from band_exponent_range [OF assms(1)] obtain e where
    e: "round32 (2 * real (i div 2) / real (num_pos_feats cfg)) = Some e" "0 \<le> e" "e \<le> 1"
    by blast
  have t: "round32 t = Some t" using assms(3) by (rule round32_idem)
  have m: "round32 (min t 1) = Some (min t 1)" "round32 (max t 1) = Some (max t 1)"
    using t by (simp_all add: min_def max_def)
  from round32_between [OF powr_between [OF assms(4) e(2,3)] m] obtain v where
    v: "round32 (t powr e) = Some v" "min t 1 \<le> v" "v \<le> max t 1" by blast
  from round32_Some_val [OF v(1)] have "v = round32_val (t powr e)" by simp
  with dim_t_elem [OF assms e(1)] e(1) v show ?thesis by simp
qed

lemma f0 [simp]: "fsin (Some 0) = Some 0" "fcos (Some 0) = Some 1"
  by (simp_all add: fsin_def fcos_def)

lemma to_float32_0 [simp]: "to_float32 (Some 0) = Some 0"
  by (simp add: to_float32_def)

lemma fdiv_zero: "v \<noteq> 0 \<Longrightarrow> fdiv (Some 0) (Some v) = Some 0"
  by (simp add: fdiv_def)

lemma band_zero:
  assumes "even (num_pos_feats cfg)" "num_pos_feats cfg \<le> 2 ^ 24"
    "round32 (temperature cfg) = Some t" "0 < t" "j < num_pos_feats cfg"
  shows "band cfg (Some 0) j = (if j < num_pos_feats cfg div 2 then Some 0 else Some 1)"
proof -
  let ?n = "num_pos_feats cfg"
  from assms(1) have n: "2 * (?n div 2) = ?n" by presburger
  have d: "fdiv (Some 0) (elem (dim_t cfg) [i]) = Some 0" if "i < ?n" for i
  proof -
    from dim_t_value [OF that assms(2,3,4)] obtain v where
      "elem (dim_t cfg) [i] = Some v" "min t 1 \<le> v" by blast
    with assms(4) show ?thesis by (simp add: fdiv_zero)
  qed
  show ?thesis
  proof (cases "j < ?n div 2")
    case True
    with n have "2 * j < ?n" by linarith
    from d [OF this] True show ?thesis by (simp add: band_def)
  next
    case False
    with n assms(5) have "2 * (j - ?n div 2) + 1 < ?n" by linarith
    from d [OF this] False show ?thesis by (simp add: band_def)
  qed
qed

lemma dense_embed_default_mask:
  assumes "default_mask x mask_arg = Inr m"
  shows "dense_embed cfg x mask_arg = dense_embed cfg x (Some m)"
  using assms by (simp add: dense_embed_def default_mask_def [of x "Some m"])

lemma default_mask_no_mask:
  assumes "shape x = [B, C, X, Y, Z]"
  shows "default_mask x None = Inr (torch_zeros [B, X, Y, Z])"
  using assms by (simp add: default_mask_def tensor_size_def)

lemma count_as_sum:
  "real (length (filter P [0..<Suc i])) = (\<Sum>t\<le>i. if P t then 1 else 0)"
proof (induction i)
  case 0
  then show ?case by simp
next
  case (Suc i)
  have "[0..<Suc (Suc i)] = [0..<Suc i] @ [Suc i]" by simp
  with Suc show ?case by (simp add: atMost_Suc del: upt_Suc)
qed

lemma rank_as_sum:
  "real (rank m d idx) = (\<Sum>t\<le>idx ! d. if elem m (idx[d := t]) then 0 else 1)"
proof -
  have "(\<Sum>t\<le>idx ! d. if \<not> elem m (idx[d := t]) then 1 else 0) =
      (\<Sum>t\<le>idx ! d. if elem m (idx[d := t]) then 0 else (1::real))"
    by (rule sum.cong) simp_all
  then show ?thesis
    unfolding rank_def count_as_sum by simp
qed

lemma count_mono:
  assumes "a \<le> b"
  shows "length (filter P [0..<a]) \<le> length (filter P [0..<b])"
proof -
  from assms have "[0..<b] = [0..<a] @ [a..<b]"
    by (metis le0 upt_add_eq_append le_add_diff_inverse)
  then show ?thesis by simp
qed

lemma rank_le_last:
  assumes "idx ! d < n" "d < length idx"
  shows "rank m d idx \<le> rank m d (idx[d := n - 1])"
proof -
  from assms have "Suc (idx ! d) \<le> Suc (n - 1)" by simp
  from count_mono [OF this, of "\<lambda>k. \<not> elem m (idx[d := k])"] assms(2) show ?thesis
    by (simp add: rank_def del: upt_Suc)
qed

lemma rank_pos:
  assumes "\<not> elem m idx" "d < length idx"
  shows "0 < rank m d idx"
proof -
  have "idx ! d \<in> set [0..<Suc (idx ! d)]" by simp
  moreover from assms have "\<not> elem m (idx[d := idx ! d])" by simp
  ultimately have "filter (\<lambda>k. \<not> elem m (idx[d := k])) [0..<Suc (idx ! d)] \<noteq> []"
    unfolding filter_empty_conv by blast
  then show ?thesis by (simp add: rank_def del: upt_Suc)
qed

lemma rank_le_Suc: "rank m d idx \<le> Suc (idx ! d)"
proof -
  have "rank m d idx \<le> length [0..<Suc (idx ! d)]"
    unfolding rank_def by (rule length_filter_le)
  then show ?thesis by (simp del: upt_Suc)
qed

lemma rank_zeros: "rank (torch_zeros s) d idx = Suc (idx ! d)"
  by (simp add: rank_def torch_zeros_def del: upt_Suc)

lemma count32_exact:
  assumes "idx ! d < n" "n \<le> 2 ^ 24"
  shows "count32 m d idx = Some (real (rank m d idx))"
proof -
  from rank_le_Suc [of m d idx] assms have "rank m d idx \<le> 2 ^ 24" by linarith
  then show ?thesis unfolding count32_def by (rule round32_nat)
qed

lemma round32_3 [simp]: "round32 3 = Some 3"
  using round32_nat [of 3] by simp

section \<open>The claims\<close>

text \<open>
  \<^bold>\<open>C1.\<close> The code stacks the sines and the cosines on a new dimension in front of the band
  dimension (\<^verbatim>\<open>dim=4\<close> on tensors of five dimensions, \<^verbatim>\<open>dim=1\<close> on tensors of two), so
  \<^verbatim>\<open>flatten\<close> puts the sines of the even bands first and the cosines of the odd bands after
  them. With \<^verbatim>\<open>num_pos_feats = 4\<close> and the coordinate 0, position 1 of a per-axis encoding is
  \<open>sin (0 / dim_t[2]) = 0\<close>, where interleaving would put \<open>cos (0 / dim_t[1]) = 1\<close>: the
  encoding of an axis is \<open>[0, 0, 1, 1]\<close>, not \<open>[0, 1, 0, 1]\<close>, in the sparse encoder (on the
  point \<^verbatim>\<open>[[0,0,0]]\<close>) and in the dense one (on a voxel that is padding).
\<close>

theorem bands_stacked_not_interleaved:
  "(\<exists>out. PositionEmbeddingSineSparse_forward (cfg_default 4) origin = Inr out \<and>
      elem out [0, 1] = fsin (fdiv (elem origin [0, 0]) (elem (dim_t (cfg_default 4)) [2])) \<and>
      fcos (fdiv (elem origin [0, 0]) (elem (dim_t (cfg_default 4)) [1])) = Some 1 \<and>
      map (\<lambda>j. elem out [0, j]) [0, 1, 2, 3] = [Some 0, Some 0, Some 1, Some 1]) \<and>
   (\<exists>out. PositionEmbeddingSine_forward (cfg_default 4) one_voxel (Some all_masked) = Inr out \<and>
      map (\<lambda>c. elem out [0, c, 0, 0, 0]) [0, 1, 2, 3] = [Some 0, Some 0, Some 1, Some 1])"
proof -
  define cfg where "cfg = cfg_default 4"
  have n: "num_pos_feats cfg = 4" and ev: "even (num_pos_feats cfg)"
    and tp: "0 < temperature cfg" and nn: "\<not> normalize cfg"
    by (simp_all add: cfg_def cfg_default_def)
  have n24: "num_pos_feats cfg \<le> 2 ^ 24" by (simp add: n)
  have rt: "round32 (temperature cfg) = Some 10000"
    using round32_nat [of 10000] by (simp add: cfg_def cfg_default_def)
  have z: "band cfg (Some 0) j = (if j < 2 then Some 0 else Some 1)" if "j < 4" for j
    using band_zero [OF ev n24 rt, of j] that by (simp add: n)
  have so: "shape origin = [1, 3]" and eo: "elem origin [0, 0] = Some 0"
    by (simp_all add: origin_def tensor2_def)
  from sparse_forward_even [OF so ev] obtain out where
    out: "PositionEmbeddingSineSparse_forward cfg origin = Inr out"
    "\<forall>r j. r < 1 \<longrightarrow> j < 3 * num_pos_feats cfg \<longrightarrow> elem out [r, j] =
       band cfg (sparse_coord cfg (to_float32 (elem origin [r, j div num_pos_feats cfg]))) (j mod num_pos_feats cfg)"
    by blast
  have o: "elem out [0, j] = band cfg (Some 0) j" if "j < 4" for j
    using out(2) [rule_format, of 0 j] that eo nn by (simp add: n sparse_coord_def)
  have p1: "elem out [0, 1] = fsin (fdiv (elem origin [0, 0]) (elem (dim_t cfg) [2]))"
    using o [of 1] by (simp add: band_def n eo)
  have "band cfg (Some 0) 3 = fcos (fdiv (Some 0) (elem (dim_t cfg) [2 * (3 - 4 div 2) + 1]))"
    unfolding band_def n by simp
  have b2: "band cfg (Some 0) 2 = fcos (fdiv (Some 0) (elem (dim_t cfg) [1]))"
    unfolding band_def n by simp
  have p2: "fcos (fdiv (elem origin [0, 0]) (elem (dim_t cfg) [1])) = Some 1"
    using z [of 2] by (simp add: b2 eo)
  have p3: "map (\<lambda>j. elem out [0, j]) [0, 1, 2, 3] = [Some 0, Some 0, Some 1, Some 1]"
    using o [of 0] o [of 1] o [of 2] o [of 3] z [of 0] z [of 1] z [of 2] z [of 3] by simp
  have sm: "shape all_masked = [1, 1, 1, 1]" by (simp add: all_masked_def)
  from dense_forward_even [OF sm ev, of one_voxel] obtain od where
    od: "PositionEmbeddingSine_forward cfg one_voxel (Some all_masked) = Inr od"
    "\<forall>b c i j k. b < 1 \<longrightarrow> c < 3 * num_pos_feats cfg \<longrightarrow> i < 1 \<longrightarrow> j < 1 \<longrightarrow> k < 1 \<longrightarrow>
       elem od [b, c, i, j, k] =
         band cfg (dense_coord cfg all_masked (1 + c div num_pos_feats cfg) [b, i, j, k])
           (c mod num_pos_feats cfg)"
    by blast
  have c0: "dense_coord cfg all_masked 1 [0, 0, 0, 0] = Some 0"
    using nn by (simp add: dense_coord_def count32_def rank_def all_masked_def)
  have e: "elem od [0, c, 0, 0, 0] = band cfg (Some 0) c" if "c < 4" for c
    using od(2) [rule_format, of 0 c 0 0 0] that c0 by (simp add: n)
  have p4: "map (\<lambda>c. elem od [0, c, 0, 0, 0]) [0, 1, 2, 3] = [Some 0, Some 0, Some 1, Some 1]"
    using e [of 0] e [of 1] e [of 2] e [of 3] z [of 0] z [of 1] z [of 2] z [of 3] by simp
  from out(1) p1 p2 p3 have A:
    "\<exists>out. PositionEmbeddingSineSparse_forward cfg origin = Inr out \<and>
      elem out [0, 1] = fsin (fdiv (elem origin [0, 0]) (elem (dim_t cfg) [2])) \<and>
      fcos (fdiv (elem origin [0, 0]) (elem (dim_t cfg) [1])) = Some 1 \<and>
      map (\<lambda>j. elem out [0, j]) [0, 1, 2, 3] = [Some 0, Some 0, Some 1, Some 1]"
    by (intro exI [of _ out] conjI)
  from od(1) p4 have B:
    "\<exists>out. PositionEmbeddingSine_forward cfg one_voxel (Some all_masked) = Inr out \<and>
      map (\<lambda>c. elem out [0, c, 0, 0, 0]) [0, 1, 2, 3] = [Some 0, Some 0, Some 1, Some 1]"
    by (intro exI [of _ od] conjI)
  from A B show ?thesis
    unfolding cfg_def by (rule conjI)
qed



text \<open>
  \<^bold>\<open>C3.\<close> Both constructors raise \<^verbatim>\<open>ValueError\<close> when a scale is passed and
  \<^verbatim>\<open>normalize\<close> is false, whatever the other arguments are; no encoder exists then, so no
  encoding call can follow. With \<^verbatim>\<open>normalize\<close> true, or with no scale, they return the
  configuration, with scale \<open>2\<pi>\<close> when none is passed.
\<close>

theorem init_scale_requires_normalize:
  "(sc \<noteq> None \<and> \<not> nrm \<longrightarrow>
      PositionEmbeddingSine_init npf temp nrm sc = Inl ValueError \<and>
      PositionEmbeddingSineSparse_init npf temp nrm sc = Inl ValueError) \<and>
   (nrm \<or> sc = None \<longrightarrow>
      PositionEmbeddingSine_init npf temp nrm sc =
        Inr \<lparr>num_pos_feats = npf, temperature = temp, normalize = nrm,
             scale = (case sc of None \<Rightarrow> 2 * pi | Some s \<Rightarrow> s)\<rparr> \<and>
      PositionEmbeddingSineSparse_init npf temp nrm sc =
        Inr \<lparr>num_pos_feats = npf, temperature = temp, normalize = nrm,
             scale = (case sc of None \<Rightarrow> 2 * pi | Some s \<Rightarrow> s)\<rparr>)"
  by (auto simp: PositionEmbeddingSine_init_def PositionEmbeddingSineSparse_init_def)

theorem init_scale_requires_normalize_witness:
  "Some (5::real) \<noteq> None \<and> \<not> False \<and>
   PositionEmbeddingSine_init 64 10000 False (Some 5) = Inl ValueError \<and>
   PositionEmbeddingSineSparse_init 64 10000 False (Some 5) = Inl ValueError \<and>
   (True \<or> Some (5::real) = None) \<and>
   PositionEmbeddingSine_init 64 10000 True (Some 5) =
     Inr \<lparr>num_pos_feats = 64, temperature = 10000, normalize = True, scale = 5\<rparr> \<and>
   PositionEmbeddingSineSparse_init 64 10000 True (Some 5) =
     Inr \<lparr>num_pos_feats = 64, temperature = 10000, normalize = True, scale = 5\<rparr> \<and>
   (False \<or> (None :: real option) = None) \<and>
   PositionEmbeddingSine_init 64 10000 False None = Inr (cfg_default 64) \<and>
   PositionEmbeddingSineSparse_init 64 10000 False None = Inr (cfg_default 64)"
  using init_scale_requires_normalize [of "Some 5" False 64 10000]
    init_scale_requires_normalize [of "Some 5" True 64 10000]
    init_scale_requires_normalize [of None False 64 10000]
  by (simp add: cfg_default_def)

text \<open>
  \<^bold>\<open>C6.\<close> As stated the claim fails: the sums are taken in float32, and along an axis of
  \<open>2^24 + 1\<close> unmasked voxels the coordinate of the last voxel is \<open>2^24\<close>, not its rank
  \<open>2^24 + 1\<close>. Without \<^verbatim>\<open>normalize\<close> and for extents up to \<open>2^24\<close>, the three
  coordinates of a voxel are the inclusive running sums of the indicator \<^verbatim>\<open>not mask\<close> along
  X, Y and Z of the mask given, and with no mask they are the index plus one: for an input
  of shape \<open>(1, C, 2, 1, 1)\<close>, 1 and 2 along X, and 1 along Y and Z.
\<close>

theorem dense_cumulative_occupancy:
  assumes "\<not> normalize cfg"
    and "mask_arg = Some m \<and> shape m = [B, X, Y, Z] \<or>
         mask_arg = None \<and> shape x = [B, C, X, Y, Z] \<and> m = torch_zeros [B, X, Y, Z]"
    and "X \<le> 2 ^ 24" "Y \<le> 2 ^ 24" "Z \<le> 2 ^ 24"
    and "b < B" "i < X" "j < Y" "k < Z"
  shows "\<exists>xe ye ze. dense_embed cfg x mask_arg = Inr (xe, ye, ze) \<and>
           elem xe [b, i, j, k] = Some (\<Sum>t\<le>i. if elem m [b, t, j, k] then 0 else 1) \<and>
           elem ye [b, i, j, k] = Some (\<Sum>t\<le>j. if elem m [b, i, t, k] then 0 else 1) \<and>
           elem ze [b, i, j, k] = Some (\<Sum>t\<le>k. if elem m [b, i, j, t] then 0 else 1) \<and>
           (mask_arg = None \<longrightarrow>
              elem xe [b, i, j, k] = Some (real i + 1) \<and>
              elem ye [b, i, j, k] = Some (real j + 1) \<and>
              elem ze [b, i, j, k] = Some (real k + 1))"
proof -
  let ?p = "[b, i, j, k]"
  from assms(2) have sm: "shape m = [B, X, Y, Z]"
    by (auto simp: torch_zeros_def)
  from assms(2) have eq: "dense_embed cfg x mask_arg = dense_embed cfg x (Some m)"
    by (auto simp: dense_embed_no_mask)
  from dense_embed_ok [OF sm, of cfg x] obtain xe ye ze where
    e: "dense_embed cfg x (Some m) = Inr (xe, ye, ze)"
    "\<forall>idx. in_bounds [B, X, Y, Z] idx \<longrightarrow>
       elem xe idx = dense_coord cfg m 1 idx \<and>
       elem ye idx = dense_coord cfg m 2 idx \<and>
       elem ze idx = dense_coord cfg m 3 idx"
    by blast
  have ib: "in_bounds [B, X, Y, Z] ?p" using assms(6-9) by (simp add: in_bounds_def)
  have cx: "count32 m 1 ?p = Some (real (rank m 1 ?p))"
    by (rule count32_exact [OF _ assms(3)]) (simp add: assms(7))
  have cy: "count32 m 2 ?p = Some (real (rank m 2 ?p))"
    by (rule count32_exact [OF _ assms(4)]) (simp add: assms(8))
  have cz: "count32 m 3 ?p = Some (real (rank m 3 ?p))"
    by (rule count32_exact [OF _ assms(5)]) (simp add: assms(9))
  have rx: "real (rank m 1 ?p) = (\<Sum>t\<le>i. if elem m [b, t, j, k] then 0 else 1)"
    using rank_as_sum [of m 1 ?p] by simp
  have ry: "real (rank m 2 ?p) = (\<Sum>t\<le>j. if elem m [b, i, t, k] then 0 else 1)"
    using rank_as_sum [of m 2 ?p] by simp
  have rz: "real (rank m 3 ?p) = (\<Sum>t\<le>k. if elem m [b, i, j, t] then 0 else 1)"
    using rank_as_sum [of m 3 ?p] by simp
  from e(2) [rule_format, OF ib] assms(1) have v:
    "elem xe ?p = Some (\<Sum>t\<le>i. if elem m [b, t, j, k] then 0 else 1)"
    "elem ye ?p = Some (\<Sum>t\<le>j. if elem m [b, i, t, k] then 0 else 1)"
    "elem ze ?p = Some (\<Sum>t\<le>k. if elem m [b, i, j, t] then 0 else 1)"
    using cx cy cz rx ry rz by (simp_all add: dense_coord_def)
  have z: "elem xe ?p = Some (real i + 1) \<and> elem ye ?p = Some (real j + 1) \<and>
      elem ze ?p = Some (real k + 1)" if "mask_arg = None"
  proof -
    from that assms(2) have "m = torch_zeros [B, X, Y, Z]" by simp
    then have "rank m 1 ?p = Suc i" "rank m 2 ?p = Suc j" "rank m 3 ?p = Suc k"
      by (simp_all add: rank_zeros)
    with e(2) [rule_format, OF ib] assms(1) cx cy cz show ?thesis
      by (simp add: dense_coord_def add.commute)
  qed
  show ?thesis
    apply (rule exI [of _ xe], rule exI [of _ ye], rule exI [of _ ze])
    using eq e(1) v z apply simp
    done
qed

theorem dense_cumulative_occupancy_witness:
  "\<not> normalize (cfg_default 2) \<and> shape padded_line = [1, 2, 1, 1] \<and>
   (\<exists>xe ye ze. dense_embed (cfg_default 2) two_voxels (Some padded_line) = Inr (xe, ye, ze) \<and>
      elem xe [0, 1, 0, 0] = Some 0 \<and> elem ye [0, 1, 0, 0] = Some 0 \<and>
      elem ze [0, 1, 0, 0] = Some 0) \<and>
   shape two_voxels = [1, 1, 2, 1, 1] \<and>
   (\<exists>xe ye ze. dense_embed (cfg_default 2) two_voxels None = Inr (xe, ye, ze) \<and>
      elem xe [0, 1, 0, 0] = Some 2 \<and> elem ye [0, 1, 0, 0] = Some 1 \<and>
      elem ze [0, 1, 0, 0] = Some 1)"
proof -
  let ?cfg = "cfg_default 2"
  have a: "\<not> normalize ?cfg" by (simp add: cfg_default_def)
  have s: "shape padded_line = [1, 2, 1, 1]" by (simp add: padded_line_def)
  have t: "shape two_voxels = [1, 1, 2, 1, 1]" by (simp add: two_voxels_def)
  have h: "Some padded_line = Some padded_line \<and> shape padded_line = [1, 2, 1, 1] \<or>
      Some padded_line = None \<and> shape two_voxels = [1, 1, 2, 1, 1] \<and>
      padded_line = torch_zeros [1, 2, 1, 1]"
    using s by simp
  from dense_cumulative_occupancy [OF a h, of 0 1 0 0]
  obtain xe ye ze where
    o: "dense_embed ?cfg two_voxels (Some padded_line) = Inr (xe, ye, ze)"
    "elem xe [0, 1, 0, 0] = Some (\<Sum>t\<le>1. if elem padded_line [0, t, 0, 0] then 0 else 1)"
    "elem ye [0, 1, 0, 0] = Some (\<Sum>t\<le>0. if elem padded_line [0, 1, t, 0] then 0 else 1)"
    "elem ze [0, 1, 0, 0] = Some (\<Sum>t\<le>0. if elem padded_line [0, 1, 0, t] then 0 else 1)"
    by auto
  have "elem xe [0, 1, 0, 0] = Some 0" "elem ye [0, 1, 0, 0] = Some 0"
    "elem ze [0, 1, 0, 0] = Some 0"
    using o(2,3,4) by (simp_all add: padded_line_def)
  with o(1) have one: "\<exists>xe ye ze. dense_embed ?cfg two_voxels (Some padded_line) = Inr (xe, ye, ze) \<and>
      elem xe [0, 1, 0, 0] = Some 0 \<and> elem ye [0, 1, 0, 0] = Some 0 \<and>
      elem ze [0, 1, 0, 0] = Some 0"
    apply -
    apply (rule exI [of _ xe], rule exI [of _ ye], rule exI [of _ ze])
    apply simp
    done
  have h': "(None :: bool tensor option) = Some (torch_zeros [1, 2, 1, 1]) \<and>
        shape (torch_zeros [1, 2, 1, 1]) = [1, 2, 1, 1] \<or>
      (None :: bool tensor option) = None \<and> shape two_voxels = [1, 1, 2, 1, 1] \<and>
      torch_zeros [1, 2, 1, 1] = torch_zeros [1, 2, 1, 1]"
    using t by simp
  from dense_cumulative_occupancy [OF a h', of 0 1 0 0]
  obtain xe' ye' ze' where
    o': "dense_embed ?cfg two_voxels None = Inr (xe', ye', ze')"
    "elem xe' [0, 1, 0, 0] = Some (real 1 + 1)"
    "elem ye' [0, 1, 0, 0] = Some (real 0 + 1)"
    "elem ze' [0, 1, 0, 0] = Some (real 0 + 1)"
    by auto
  have "elem xe' [0, 1, 0, 0] = Some 2" "elem ye' [0, 1, 0, 0] = Some 1"
    "elem ze' [0, 1, 0, 0] = Some 1"
    using o'(2,3,4) by simp_all
  with o'(1) have two: "\<exists>xe ye ze. dense_embed ?cfg two_voxels None = Inr (xe, ye, ze) \<and>
      elem xe [0, 1, 0, 0] = Some 2 \<and> elem ye [0, 1, 0, 0] = Some 1 \<and>
      elem ze [0, 1, 0, 0] = Some 1"
    apply -
    apply (rule exI [of _ xe'], rule exI [of _ ye'], rule exI [of _ ze'])
    apply simp
    done
  from a s one t two show ?thesis by (intro conjI)
qed

theorem dense_cumulative_occupancy_long_axis_counterexample:
  "map_sum id (\<lambda>(xe, ye, ze). elem xe [0, 16777216, 0, 0]) (dense_embed (cfg_default 2) long_line None) =
     Inr (Some 16777216) \<and>
   (\<Sum>t\<le>16777216. if elem (torch_zeros [1, 16777217, 1, 1]) [0, t, 0, 0] then 0 else 1) =
     (16777217::real)"
proof -
  let ?cfg = "cfg_default 2" and ?m = "torch_zeros [1, 16777217, 1, 1]"
  have s: "shape long_line = [1, 1, 16777217, 1, 1]" by (simp add: long_line_def)
  have sm: "shape ?m = [1, 16777217, 1, 1]" by (simp add: torch_zeros_def)
  from dense_embed_ok [OF sm, of ?cfg long_line] obtain xe ye ze where
    e: "dense_embed ?cfg long_line (Some ?m) = Inr (xe, ye, ze)"
    "\<forall>idx. in_bounds [1, 16777217, 1, 1] idx \<longrightarrow>
       elem xe idx = dense_coord ?cfg ?m 1 idx \<and>
       elem ye idx = dense_coord ?cfg ?m 2 idx \<and>
       elem ze idx = dense_coord ?cfg ?m 3 idx"
    by blast
  have ib: "in_bounds [1, 16777217, 1, 1] [0, 16777216, 0, 0]" by (simp add: in_bounds_def)
  have "round32 (2 ^ 24 + 1) = Some (2 ^ 24)" by (rule round32_2p24_1)
  then have r: "round32 16777217 = Some 16777216" by simp
  from e(2) [rule_format, OF ib] have "elem xe [0, 16777216, 0, 0] = Some 16777216"
    using r by (simp add: dense_coord_def cfg_default_def count32_def rank_zeros)
  with e(1) have one: "map_sum id (\<lambda>(xe, ye, ze). elem xe [0, 16777216, 0, 0])
      (dense_embed ?cfg long_line None) = Inr (Some 16777216)"
    by (simp add: dense_embed_no_mask [OF s])
  have two: "(\<Sum>t\<le>16777216. if elem ?m [0, t, 0, 0] then 0 else 1) = (16777217::real)"
    by (simp add: torch_zeros_def)
  from one two show ?thesis by (rule conjI)
qed

text \<open>
  \<^bold>\<open>C7.\<close> In the sparse encoder a row of the output depends on the same row of the input
  only. When row \<open>i\<close> of \<open>a\<close> is row \<open>j\<close> of \<open>b\<close>, row \<open>i\<close> of the encoding of \<open>a\<close> is row
  \<open>j\<close> of the encoding of \<open>b\<close>, whatever the other rows are; and encoding the rows picked by
  \<open>g\<close> (a permutation, or any selection) gives the picked rows of the encoding. The two calls
  also fail together.
\<close>

theorem sparse_rows_independent:
  "(shape a = [N, 3] \<longrightarrow> shape b = [M, 3] \<longrightarrow> i < N \<longrightarrow> j < M \<longrightarrow>
      (\<forall>c<3. elem a [i, c] = elem b [j, c]) \<longrightarrow>
      rel_sum (=) (\<lambda>oa ob. \<forall>c<3 * num_pos_feats cfg. elem oa [i, c] = elem ob [j, c])
        (PositionEmbeddingSineSparse_forward cfg a) (PositionEmbeddingSineSparse_forward cfg b))
   \<and> (shape a = [N, 3] \<longrightarrow> (\<forall>r<M. g r < N) \<longrightarrow>
      rel_sum (=) tensor_eq
        (PositionEmbeddingSineSparse_forward cfg (index_rows g M a))
        (map_sum id (index_rows g M) (PositionEmbeddingSineSparse_forward cfg a)))"
proof (intro conjI impI)
  let ?n = "num_pos_feats cfg"
  assume a: "shape a = [N, 3]" and b: "shape b = [M, 3]" and i: "i < N" and j: "j < M"
    and eq: "\<forall>c<3. elem a [i, c] = elem b [j, c]"
  show "rel_sum (=) (\<lambda>oa ob. \<forall>c<3 * ?n. elem oa [i, c] = elem ob [j, c])
        (PositionEmbeddingSineSparse_forward cfg a) (PositionEmbeddingSineSparse_forward cfg b)"
  proof (cases "even ?n")
    case False
    then show ?thesis
      by (simp add: sparse_forward_odd [OF a] sparse_forward_odd [OF b])
  next
    case True
    from sparse_forward_even [OF a True] obtain oa where
      oa: "PositionEmbeddingSineSparse_forward cfg a = Inr oa"
      "\<forall>r j. r < N \<longrightarrow> j < 3 * ?n \<longrightarrow> elem oa [r, j] =
         band cfg (sparse_coord cfg (to_float32 (elem a [r, j div ?n]))) (j mod ?n)"
      by blast
    from sparse_forward_even [OF b True] obtain ob where
      ob: "PositionEmbeddingSineSparse_forward cfg b = Inr ob"
      "\<forall>r j. r < M \<longrightarrow> j < 3 * ?n \<longrightarrow> elem ob [r, j] =
         band cfg (sparse_coord cfg (to_float32 (elem b [r, j div ?n]))) (j mod ?n)"
      by blast
    have "elem oa [i, c] = elem ob [j, c]" if "c < 3 * ?n" for c
    proof -
      from that have "c div ?n < 3"
        by (metis less_mult_imp_div_less mult.commute)
      with eq have "elem a [i, c div ?n] = elem b [j, c div ?n]" by simp
      with oa(2) ob(2) i j that show ?thesis by simp
    qed
    with oa(1) ob(1) show ?thesis by simp
  qed
next
  let ?n = "num_pos_feats cfg"
  assume a: "shape a = [N, 3]" and g: "\<forall>r<M. g r < N"
  have b: "shape (index_rows g M a) = [M, 3]"
    by (simp add: index_rows_def a)
  show "rel_sum (=) tensor_eq
        (PositionEmbeddingSineSparse_forward cfg (index_rows g M a))
        (map_sum id (index_rows g M) (PositionEmbeddingSineSparse_forward cfg a))"
  proof (cases "even ?n")
    case False
    then show ?thesis
      by (simp add: sparse_forward_odd [OF a] sparse_forward_odd [OF b])
  next
    case True
    from sparse_forward_even [OF a True] obtain oa where
      oa: "PositionEmbeddingSineSparse_forward cfg a = Inr oa" "shape oa = [N, 3 * ?n]"
      "\<forall>r j. r < N \<longrightarrow> j < 3 * ?n \<longrightarrow> elem oa [r, j] =
         band cfg (sparse_coord cfg (to_float32 (elem a [r, j div ?n]))) (j mod ?n)"
      by blast
    from sparse_forward_even [OF b True] obtain ob where
      ob: "PositionEmbeddingSineSparse_forward cfg (index_rows g M a) = Inr ob"
      "shape ob = [M, 3 * ?n]"
      "\<forall>r j. r < M \<longrightarrow> j < 3 * ?n \<longrightarrow> elem ob [r, j] =
         band cfg (sparse_coord cfg (to_float32 (elem (index_rows g M a) [r, j div ?n]))) (j mod ?n)"
      by blast
    have "tensor_eq ob (index_rows g M oa)"
      unfolding tensor_eq_def
    proof (intro conjI allI impI)
      show "shape ob = shape (index_rows g M oa)"
        by (simp add: ob(2) oa(2) index_rows_def)
    next
      fix idx assume "in_bounds (shape ob) idx"
      then obtain r c where idx: "idx = [r, c]" "r < M" "c < 3 * ?n"
        by (auto simp: ob(2) in_bounds2)
      with g have "g r < N" by simp
      with idx oa(3) ob(3) show "elem ob idx = elem (index_rows g M oa) idx"
        by (simp add: index_rows_def)
    qed
    with oa(1) ob(1) show ?thesis by simp
  qed
qed

theorem sparse_rows_independent_witness:
  "shape two_points = [2, 3] \<and> shape one_point = [1, 3] \<and> (0::nat) < 2 \<and> (0::nat) < 1 \<and>
   elem two_points [0, 0] = elem one_point [0, 0] \<and>
   elem two_points [0, 1] = elem one_point [0, 1] \<and>
   elem two_points [0, 2] = elem one_point [0, 2] \<and>
   rel_sum (=) (\<lambda>oa ob. \<forall>c<3 * num_pos_feats (cfg_default 2). elem oa [0, c] = elem ob [0, c])
     (PositionEmbeddingSineSparse_forward (cfg_default 2) two_points)
     (PositionEmbeddingSineSparse_forward (cfg_default 2) one_point) \<and>
   (1::nat) - 0 < 2 \<and> (1::nat) - 1 < 2 \<and>
   rel_sum (=) tensor_eq
     (PositionEmbeddingSineSparse_forward (cfg_default 2) (index_rows (\<lambda>r. 1 - r) 2 two_points))
     (map_sum id (index_rows (\<lambda>r. 1 - r) 2)
        (PositionEmbeddingSineSparse_forward (cfg_default 2) two_points))"
proof -
  have sa: "shape two_points = [2, 3]" and sb: "shape one_point = [1, 3]"
    by (simp_all add: two_points_def one_point_def tensor2_def)
  have row: "\<forall>c<3. elem two_points [0, c] = elem one_point [0, c]"
    by (simp add: two_points_def one_point_def tensor2_def)
  have g: "\<forall>r<2. 1 - r < (2::nat)"
    by arith
  from sparse_rows_independent [of two_points 2 one_point 1 0 0 "cfg_default 2" "\<lambda>r. 1 - r"] sa sb row
  have one: "rel_sum (=) (\<lambda>oa ob. \<forall>c<3 * num_pos_feats (cfg_default 2). elem oa [0, c] = elem ob [0, c])
     (PositionEmbeddingSineSparse_forward (cfg_default 2) two_points)
     (PositionEmbeddingSineSparse_forward (cfg_default 2) one_point)"
    by simp
  from sparse_rows_independent [of two_points 2 one_point 2 0 0 "cfg_default 2" "\<lambda>r. 1 - r"] sa g
  have two: "rel_sum (=) tensor_eq
     (PositionEmbeddingSineSparse_forward (cfg_default 2) (index_rows (\<lambda>r. 1 - r) 2 two_points))
     (map_sum id (index_rows (\<lambda>r. 1 - r) 2)
        (PositionEmbeddingSineSparse_forward (cfg_default 2) two_points))"
    by simp
  from sa sb row one two show ?thesis by simp
qed

text \<open>
  \<^bold>\<open>C8.\<close> As stated the claim fails: with \<^verbatim>\<open>num_pos_feats = 1\<close> the dense encoder raises
  and has no output. For an even \<^verbatim>\<open>num_pos_feats\<close>, an input of shape \<open>(B, C, X, Y, Z)\<close>
  and a mask of shape \<open>(B, X, Y, Z)\<close> or none, the output has shape
  \<open>(B, 3 * num_pos_feats, X, Y, Z)\<close>; its channels are those of the encoding of X, then of Y,
  then of Z, and the channel is the second index.
\<close>

theorem dense_output_shape:
  assumes "even (num_pos_feats cfg)" "shape x = [B, C, X, Y, Z]"
    "mask_arg = None \<or> (\<exists>m. mask_arg = Some m \<and> shape m = [B, X, Y, Z])"
  shows "\<exists>px py pz out. dense_pos cfg x mask_arg = Inr (px, py, pz) \<and>
           PositionEmbeddingSine_forward cfg x mask_arg = Inr out \<and>
           shape out = [B, 3 * num_pos_feats cfg, X, Y, Z] \<and>
           (\<forall>b c i j k. b < B \<longrightarrow> c < 3 * num_pos_feats cfg \<longrightarrow> i < X \<longrightarrow> j < Y \<longrightarrow> k < Z \<longrightarrow>
              elem out [b, c, i, j, k] =
                (if c < num_pos_feats cfg then elem px [b, i, j, k, c]
                 else if c < 2 * num_pos_feats cfg then elem py [b, i, j, k, c - num_pos_feats cfg]
                 else elem pz [b, i, j, k, c - 2 * num_pos_feats cfg]))"
proof (cases mask_arg)
  case None
  have "shape (torch_zeros [B, X, Y, Z]) = [B, X, Y, Z]" by (simp add: torch_zeros_def)
  from dense_layout [OF this assms(1), of x] None show ?thesis
    by (simp add: dense_forward_no_mask [OF assms(2)] dense_pos_no_mask [OF assms(2)])
next
  case (Some m)
  with assms(3) have "shape m = [B, X, Y, Z]" by simp
  from dense_layout [OF this assms(1), of x] Some show ?thesis by simp
qed

theorem dense_output_shape_witness:
  "even (num_pos_feats (cfg_default 64)) \<and> shape two_voxels = [1, 1, 2, 1, 1] \<and>
   (\<exists>px py pz out. dense_pos (cfg_default 64) two_voxels None = Inr (px, py, pz) \<and>
      PositionEmbeddingSine_forward (cfg_default 64) two_voxels None = Inr out \<and>
      shape out = [1, 192, 2, 1, 1] \<and>
      elem out [0, 0, 1, 0, 0] = elem px [0, 1, 0, 0, 0] \<and>
      elem out [0, 64, 1, 0, 0] = elem py [0, 1, 0, 0, 0] \<and>
      elem out [0, 191, 1, 0, 0] = elem pz [0, 1, 0, 0, 63])"
proof -
  have a: "even (num_pos_feats (cfg_default 64))" by (simp add: cfg_default_def)
  have b: "shape two_voxels = [1, 1, 2, 1, 1]" by (simp add: two_voxels_def)
  from dense_output_shape [OF a b, of None] obtain px py pz out where
    o: "dense_pos (cfg_default 64) two_voxels None = Inr (px, py, pz)"
    "PositionEmbeddingSine_forward (cfg_default 64) two_voxels None = Inr out"
    "shape out = [1, 3 * num_pos_feats (cfg_default 64), 2, 1, 1]"
    "\<forall>b c i j k. b < 1 \<longrightarrow> c < 3 * num_pos_feats (cfg_default 64) \<longrightarrow> i < 2 \<longrightarrow> j < 1 \<longrightarrow> k < 1 \<longrightarrow>
       elem out [b, c, i, j, k] =
         (if c < num_pos_feats (cfg_default 64) then elem px [b, i, j, k, c]
          else if c < 2 * num_pos_feats (cfg_default 64)
            then elem py [b, i, j, k, c - num_pos_feats (cfg_default 64)]
          else elem pz [b, i, j, k, c - 2 * num_pos_feats (cfg_default 64)])"
    by auto
  from o(4) [rule_format, of 0 0 1 0 0] o(4) [rule_format, of 0 64 1 0 0]
    o(4) [rule_format, of 0 191 1 0 0]
  have "elem out [0, 0, 1, 0, 0] = elem px [0, 1, 0, 0, 0]"
    "elem out [0, 64, 1, 0, 0] = elem py [0, 1, 0, 0, 0]"
    "elem out [0, 191, 1, 0, 0] = elem pz [0, 1, 0, 0, 63]"
    by (simp_all add: cfg_default_def)
  with o(1,2,3) a b show ?thesis by (simp add: cfg_default_def)
qed

theorem dense_output_shape_odd_counterexample:
  "PositionEmbeddingSine_forward (cfg_default 1) one_voxel None = Inl StackSizeError"
  by (rule dense_forward_odd_any [of _ _ 1 1 1 1 1])
    (simp_all add: one_voxel_def cfg_default_def)

text \<open>
  \<^bold>\<open>C9.\<close> As stated the claim fails: with \<^verbatim>\<open>num_pos_feats = 1\<close> the sparse encoder raises
  on \<^verbatim>\<open>[[1,2,3]]\<close> and has no output. For an even \<^verbatim>\<open>num_pos_feats\<close> and every input of
  \<open>N\<close> rows of three coordinates, \<open>N = 0\<close> included, it returns a tensor of shape
  \<open>(N, 3 * num_pos_feats)\<close>.
\<close>

theorem sparse_output_shape:
  assumes "even (num_pos_feats cfg)" "shape coords = [N, 3]"
  shows "\<exists>out. PositionEmbeddingSineSparse_forward cfg coords = Inr out \<and>
           shape out = [N, 3 * num_pos_feats cfg]"
  using sparse_forward_even [OF assms(2,1)] by blast

theorem sparse_output_shape_witness:
  "even (num_pos_feats (cfg_default 64)) \<and> shape no_points = [0, 3] \<and>
   (\<exists>out. PositionEmbeddingSineSparse_forward (cfg_default 64) no_points = Inr out \<and>
      shape out = [0, 192])"
proof -
  have a: "even (num_pos_feats (cfg_default 64))" by (simp add: cfg_default_def)
  have b: "shape no_points = [0, 3]" by (simp add: no_points_def tensor2_def)
  from sparse_output_shape [OF a b] a b show ?thesis by (simp add: cfg_default_def)
qed

theorem sparse_output_shape_odd_counterexample:
  "PositionEmbeddingSineSparse_forward (cfg_default 1) one_point = Inl StackSizeError"
  by (rule sparse_forward_odd [of _ 1]) (simp_all add: one_point_def tensor2_def cfg_default_def)

text \<open>
  \<^bold>\<open>C10.\<close> With an odd \<^verbatim>\<open>num_pos_feats\<close> both encoders fail in \<^verbatim>\<open>torch.stack\<close>, on
  every input of the expected shape: the slice \<^verbatim>\<open>0::2\<close> of the bands has
  \<open>(num_pos_feats + 1) div 2\<close> entries, the slice \<^verbatim>\<open>1::2\<close> has \<open>(num_pos_feats - 1) div 2\<close>,
  and the two numbers differ. So a call returns only when \<^verbatim>\<open>num_pos_feats\<close> is even.
\<close>

theorem odd_num_pos_feats_fails:
  assumes "odd (num_pos_feats cfg)"
  shows "(shape coords = [N, 3] \<longrightarrow>
            PositionEmbeddingSineSparse_forward cfg coords = Inl StackSizeError) \<and>
         (shape x = [B, C, X, Y, Z] \<longrightarrow>
            mask_arg = None \<or> (\<exists>m. mask_arg = Some m \<and> shape m = [B, X, Y, Z]) \<longrightarrow>
            PositionEmbeddingSine_forward cfg x mask_arg = Inl StackSizeError) \<and>
         slice_length (num_pos_feats cfg) 0 2 = (num_pos_feats cfg + 1) div 2 \<and>
         slice_length (num_pos_feats cfg) 1 2 = (num_pos_feats cfg - 1) div 2 \<and>
         (num_pos_feats cfg + 1) div 2 \<noteq> (num_pos_feats cfg - 1) div 2"
proof -
  from assms have "(num_pos_feats cfg + 1) div 2 \<noteq> (num_pos_feats cfg - 1) div 2"
    and "num_pos_feats cfg div 2 = (num_pos_feats cfg - 1) div 2"
    by presburger+
  with assms show ?thesis
    by (auto simp: sparse_forward_odd dense_forward_odd_any simp del: One_nat_def)
qed

theorem odd_num_pos_feats_fails_witness:
  "odd (num_pos_feats (cfg_default 3)) \<and> shape two_points = [2, 3] \<and>
   PositionEmbeddingSineSparse_forward (cfg_default 3) two_points = Inl StackSizeError \<and>
   shape two_voxels = [1, 1, 2, 1, 1] \<and>
   PositionEmbeddingSine_forward (cfg_default 3) two_voxels None = Inl StackSizeError \<and>
   slice_length (num_pos_feats (cfg_default 3)) 0 2 = 2 \<and>
   slice_length (num_pos_feats (cfg_default 3)) 1 2 = 1"
proof -
  have a: "odd (num_pos_feats (cfg_default 3))" by (simp add: cfg_default_def)
  have b: "shape two_points = [2, 3]" by (simp add: two_points_def tensor2_def)
  have c: "shape two_voxels = [1, 1, 2, 1, 1]" by (simp add: two_voxels_def)
  from odd_num_pos_feats_fails [OF a, of two_points 2 two_voxels 1 1 2 1 1 None] a b c
  show ?thesis by (simp add: cfg_default_def)
qed

end
